theory Spec2Isabelle
  imports Complex_Main "HOL-Library.Sublist"
begin

section \<open>Bayesian decomposition (methods/mf/bd.py): data model\<close>

text \<open>
  The class \<open>Bd\<close> of \<open>methods/mf/bd.py\<close> is embedded shallowly. Python objects are
  passed explicitly: the model object \<open>self\<close> is a record, a raised exception is the
  left injection of a sum, and the \<open>while\<close> loop of \<open>factorize\<close>, which need not end for an
  arbitrary \<open>update\<close>, is a partial function into \<open>option\<close> (\<open>None\<close>: it never returns).
  Floating-point numbers are read as reals (exact arithmetic).
\<close>

datatype error = ValueError | UnboundLocalError

subsection \<open>Matrices\<close>

text \<open>
  A two-dimensional array: its shape and its rows, \<open>nrows\<close> rows of \<open>ncols\<close> entries each.
\<close>

record matrix =
  nrows :: nat
  ncols :: nat
  rows :: "real list list"

definition entry :: "matrix \<Rightarrow> nat \<Rightarrow> nat \<Rightarrow> real" where
  "entry A i j = rows A ! i ! j"

definition tabulate :: "nat \<Rightarrow> nat \<Rightarrow> (nat \<Rightarrow> nat \<Rightarrow> real) \<Rightarrow> matrix" where
  "tabulate r c f =
     \<lparr>nrows = r, ncols = c, rows = map (\<lambda>i. map (\<lambda>j. f i j) [0..<c]) [0..<r]\<rparr>"

definition zeros :: "nat \<Rightarrow> nat \<Rightarrow> matrix" where
  \<comment> \<open>Modelled from the spec: \<open>sp.csr_matrix((r, c))\<close> and \<open>np.zeros((r, c))\<close> are library
      constructors that are not part of the source; the spec names their result the
      all-zero matrix of that shape.\<close>
  "zeros r c = tabulate r c (\<lambda>i j. 0)"

definition dot :: "matrix \<Rightarrow> matrix \<Rightarrow> error + matrix" where
  \<comment> \<open>Modelled from the spec: \<open>dot\<close> of \<open>utils.linalg\<close> is missing from the source; the spec
      names it the matrix product W\<cdot>H and makes incompatible dimensions a shape
      mismatch.\<close>
  "dot A B =
     (if ncols A = nrows B
      then Inr (tabulate (nrows A) (ncols B)
                  (\<lambda>i j. sum_list (map (\<lambda>l. entry A i l * entry B l j) [0..<ncols A])))
      else Inl ValueError)"

definition minus_matrix :: "matrix \<Rightarrow> matrix \<Rightarrow> error + matrix" where
  \<comment> \<open>Modelled from the spec: the operator \<open>-\<close> of the array library is not part of the
      source; the spec names \<open>V - W\<cdot>H\<close> the entrywise residual. As in the array library,
      an axis of length one is broadcast along the other operand's axis, and operands
      whose shapes differ in any other way raise.\<close>
  "minus_matrix A B =
     (if (nrows A = nrows B \<or> nrows A = 1 \<or> nrows B = 1) \<and>
         (ncols A = ncols B \<or> ncols A = 1 \<or> ncols B = 1)
      then Inr (tabulate (if nrows A = 1 then nrows B else nrows A)
                         (if ncols A = 1 then ncols B else ncols A)
                  (\<lambda>i j. entry A (if nrows A = 1 then 0 else i) (if ncols A = 1 then 0 else j) -
                         entry B (if nrows B = 1 then 0 else i) (if ncols B = 1 then 0 else j)))
      else Inl ValueError)"

definition elop_pow :: "matrix \<Rightarrow> nat \<Rightarrow> matrix" where
  \<comment> \<open>Modelled from the spec: \<open>elop(X, 2, pow)\<close> of \<open>utils.linalg\<close> is missing from the
      source; the spec names its result the squared entries of \<open>X\<close>.\<close>
  "elop_pow A e = tabulate (nrows A) (ncols A) (\<lambda>i j. entry A i j ^ e)"

definition multiply :: "matrix \<Rightarrow> matrix \<Rightarrow> matrix" where
  \<comment> \<open>Modelled from the spec: \<open>multiply\<close> of \<open>utils.linalg\<close> is missing from the source;
      it is only applied to \<open>V\<close> and \<open>V\<close>, entrywise.\<close>
  "multiply A B = tabulate (nrows A) (ncols A) (\<lambda>i j. entry A i j * entry B i j)"

definition msum :: "matrix \<Rightarrow> real" where
  \<comment> \<open>Modelled from the spec: the method \<open>.sum()\<close> of the array library, the sum of all
      entries.\<close>
  "msum A = sum_list (map sum_list (rows A))"

definition nonneg :: "matrix \<Rightarrow> bool" where
  "nonneg A = list_all (list_all (\<lambda>x. 0 \<le> x)) (rows A)"

subsection \<open>Options and the model object\<close>

text \<open>
  The dictionary \<open>self.options\<close>: each key that \<open>_set_params\<close> reads is a field, \<open>None\<close>
  when the key is absent.
\<close>

record options =
  opt_m :: "int option"
  opt_alpha :: "matrix option"
  opt_beta :: "matrix option"
  opt_theta :: "real option"
  opt_k :: "real option"
  opt_sigma :: "real option"
  opt_skip :: "int option"
  opt_stride :: "int option"
  opt_chains :: "int option"
  opt_n_w :: "matrix option"
  opt_n_h :: "matrix option"
  opt_n_sigma :: "int option"
  opt_track :: "int option"

definition get :: "'a option \<Rightarrow> 'a \<Rightarrow> 'a" where
  \<comment> \<open>\<open>dict.get(key, default)\<close>\<close>
  "get x d = (case x of None \<Rightarrow> d | Some y \<Rightarrow> y)"

text \<open>\<open>Mf_track(W = ..., H = ...)\<close>: the two references a snapshot holds.\<close>

record mf_track =
  track_W :: nat
  track_H :: nat

text \<open>
  The object \<open>self\<close>. Arrays that \<open>factorize\<close> creates or passes on live in \<open>store\<close>, a
  list of cells that only grows: a reference is an index into it and a new array is
  appended. \<open>V\<close>, \<open>W\<close>, \<open>H\<close> are references. \<open>seed\<close> is \<open>self.seed.initialize\<close>, an external
  collaborator: its first argument is the number of the run, which stands for its hidden
  random state. \<open>max_iters\<close>, \<open>min_residuals\<close> and \<open>test_conv\<close> are set by the inherited
  options layer, \<open>None\<close> when unset. \<open>callback\<close> tells whether a callback is configured;
  the callback only observes the fit.
\<close>

record bd =
  store :: "matrix list"
  V :: nat
  W :: nat
  H :: nat
  rank :: nat
  options :: options
  seed :: "nat \<Rightarrow> matrix \<Rightarrow> nat \<Rightarrow> options \<Rightarrow> matrix \<times> matrix"
  n_run :: int
  max_iters :: "int option"
  min_residuals :: "real option"
  test_conv :: "int option"
  callback :: bool
  m :: int
  alpha :: matrix
  beta :: matrix
  theta :: real
  k :: real
  sigma :: real
  skip :: int
  stride :: int
  chains :: int
  n_w :: matrix
  n_h :: matrix
  n_sigma :: int
  tracker :: "mf_track list option"
  v :: real
  n_iter :: int
  final_obj :: real

section \<open>The methods of \<open>Bd\<close>\<close>

definition set_params :: "'a bd_scheme \<Rightarrow> 'a bd_scheme" where
  \<comment> \<open>\<open>Bd._set_params\<close>\<close>
  "set_params s =
     s\<lparr>m := get (opt_m (options s)) 30,
       alpha := get (opt_alpha (options s)) (zeros (nrows (store s ! V s)) (rank s)),
       beta := get (opt_beta (options s)) (zeros (rank s) (ncols (store s ! V s))),
       theta := get (opt_theta (options s)) 0,
       k := get (opt_k (options s)) 0,
       sigma := get (opt_sigma (options s)) 1,
       skip := get (opt_skip (options s)) 100,
       stride := get (opt_stride (options s)) 1,
       chains := get (opt_chains (options s)) 1,
       n_w := get (opt_n_w (options s)) (zeros (rank s) 1),
       n_h := get (opt_n_h (options s)) (zeros (rank s) 1),
       n_sigma := get (opt_n_sigma (options s)) 0,
       tracker := (if get (opt_track (options s)) 0 \<noteq> 0 \<and> n_run s > 1
                   then Some [] else None)\<rparr>"

definition update :: "'a bd_scheme \<Rightarrow> 'a bd_scheme" where
  \<comment> \<open>\<open>Bd.update\<close>: the body is a docstring only.\<close>
  "update s = s"

definition objective :: "'a bd_scheme \<Rightarrow> error + real" where
  \<comment> \<open>\<open>Bd.objective\<close>\<close>
  "objective s =
     (case dot (store s ! W s) (store s ! H s) of
        Inl e \<Rightarrow> Inl e
      | Inr P \<Rightarrow>
         (case minus_matrix (store s ! V s) P of
            Inl e \<Rightarrow> Inl e
          | Inr R \<Rightarrow> Inr (msum (elop_pow R 2))))"

definition is_satisfied :: "'a bd_scheme \<Rightarrow> real \<Rightarrow> real \<Rightarrow> int \<Rightarrow> bool" where
  \<comment> \<open>\<open>Bd._is_satisfied\<close>; a number is true in a condition when it is not zero,
      \<open>None\<close> is false.\<close>
  "is_satisfied s pobj cobj iter =
     (if (case max_iters s of None \<Rightarrow> False | Some mi \<Rightarrow> mi \<noteq> 0 \<and> mi < iter) then False
      else if (case min_residuals s of None \<Rightarrow> False
               | Some mr \<Rightarrow> mr \<noteq> 0 \<and> iter > 0 \<and> cobj - pobj \<le> mr) then False
      else if iter > 0 \<and> cobj \<ge> pobj then False
      else True)"

subsection \<open>\<open>Bd.factorize\<close>\<close>

text \<open>
  \<open>self.update()\<close> and \<open>self.objective()\<close> are looked up on the object when they are called,
  so a subclass or a test double may replace them: the loop takes them as the parameters
  \<open>upd\<close> and \<open>obj\<close>, and \<open>Bd\<close> itself passes \<open>update\<close> and \<open>objective\<close>.

  \<open>sweep\<close> is the body of the \<open>while\<close> loop, one sweep; the local variables \<open>pobj\<close>, \<open>cobj\<close>
  and \<open>iter\<close> are passed along with the object.
\<close>

definition sweep ::
  "('a bd_scheme \<Rightarrow> 'a bd_scheme) \<Rightarrow> ('a bd_scheme \<Rightarrow> error + real) \<Rightarrow>
   'a bd_scheme \<Rightarrow> real \<Rightarrow> real \<Rightarrow> int \<Rightarrow> error + ('a bd_scheme \<times> real \<times> real \<times> int)" where
  "sweep upd obj s pobj cobj iter =
     (let pobj' = cobj;
          s' = upd s
      in if (case test_conv s' of None \<Rightarrow> True | Some tc \<Rightarrow> tc = 0 \<or> iter mod tc = 0)
         then (case obj s' of
                 Inl e \<Rightarrow> Inl e
               | Inr cobj' \<Rightarrow> Inr (s', pobj', cobj', iter + 1))
         else Inr (s', pobj', cobj, iter + 1))"

partial_function (option) sweep_loop ::
  "('a bd_scheme \<Rightarrow> 'a bd_scheme) \<Rightarrow> ('a bd_scheme \<Rightarrow> error + real) \<Rightarrow>
   'a bd_scheme \<Rightarrow> real \<Rightarrow> real \<Rightarrow> int \<Rightarrow> (error + ('a bd_scheme \<times> real \<times> int)) option" where
  "sweep_loop upd obj s pobj cobj iter =
     (if is_satisfied s pobj cobj iter
      then (case sweep upd obj s pobj cobj iter of
              Inl e \<Rightarrow> Some (Inl e)
            | Inr (s', pobj', cobj', iter') \<Rightarrow> sweep_loop upd obj s' pobj' cobj' iter')
      else Some (Inr (s, cobj, iter)))"

declare sweep_loop.simps [code]

definition copy :: "'a bd_scheme \<Rightarrow> nat \<Rightarrow> 'a bd_scheme \<times> nat" where
  \<comment> \<open>\<open>A.copy()\<close>: a new array with the entries of the array at \<open>a\<close>.\<close>
  "copy s a = (s\<lparr>store := store s @ [store s ! a]\<rparr>, length (store s))"

definition initialize :: "nat \<Rightarrow> 'a bd_scheme \<Rightarrow> 'a bd_scheme" where
  \<comment> \<open>\<open>self.W, self.H = self.seed.initialize(self.V, self.rank, self.options)\<close> in run
      number \<open>r\<close>: the seeder creates two new arrays.\<close>
  "initialize r s =
     (let (W0, H0) = seed s r (store s ! V s) (rank s) (options s)
      in s\<lparr>store := store s @ [W0, H0], W := length (store s), H := length (store s) + 1\<rparr>)"

definition run_start ::
  "('a bd_scheme \<Rightarrow> error + real) \<Rightarrow> nat \<Rightarrow> 'a bd_scheme \<Rightarrow>
   error + ('a bd_scheme \<times> real \<times> real \<times> int)" where
  \<comment> \<open>The first three lines of a run: seeding, \<open>pobj = cobj = self.objective()\<close>,
      \<open>iter = 0\<close>.\<close>
  "run_start obj r s =
     (let s1 = initialize r s
      in case obj s1 of
           Inl e \<Rightarrow> Inl e
         | Inr c \<Rightarrow> Inr (s1, c, c, 0))"

definition run_finish :: "'a bd_scheme \<Rightarrow> real \<Rightarrow> 'a bd_scheme" where
  \<comment> \<open>The end of a run: the callback, then the snapshot for the tracker.\<close>
  "run_finish s cobj =
     (let s1 = (if callback s then s\<lparr>final_obj := cobj\<rparr> else s)
      in case tracker s1 of
           None \<Rightarrow> s1
         | Some t \<Rightarrow>
            (let (s2, w) = copy s1 (W s1);
                 (s3, h) = copy s2 (H s2)
             in s3\<lparr>tracker := Some (t @ [\<lparr>track_W = w, track_H = h\<rparr>])\<rparr>))"

definition run ::
  "('a bd_scheme \<Rightarrow> 'a bd_scheme) \<Rightarrow> ('a bd_scheme \<Rightarrow> error + real) \<Rightarrow> nat \<Rightarrow>
   'a bd_scheme \<Rightarrow> (error + ('a bd_scheme \<times> real \<times> int)) option" where
  \<comment> \<open>One pass of the body of the \<open>for\<close> loop; \<open>r\<close> is the number of the run.\<close>
  "run upd obj r s =
     (case run_start obj r s of
        Inl e \<Rightarrow> Some (Inl e)
      | Inr (s1, pobj, cobj, iter) \<Rightarrow>
         (case sweep_loop upd obj s1 pobj cobj iter of
            None \<Rightarrow> None
          | Some (Inl e) \<Rightarrow> Some (Inl e)
          | Some (Inr (s2, cobj', iter')) \<Rightarrow> Some (Inr (run_finish s2 cobj', cobj', iter'))))"

text \<open>
  The \<open>for\<close> loop over \<open>xrange(self.n_run)\<close>: \<open>n\<close> runs are left, \<open>r\<close> runs are done. The local
  variables \<open>cobj\<close> and \<open>iter\<close> outlive the loop; they are unbound (\<open>None\<close>) until a run
  has assigned them.
\<close>

fun runs ::
  "('a bd_scheme \<Rightarrow> 'a bd_scheme) \<Rightarrow> ('a bd_scheme \<Rightarrow> error + real) \<Rightarrow> nat \<Rightarrow> nat \<Rightarrow>
   'a bd_scheme \<Rightarrow> (real \<times> int) option \<Rightarrow>
   (error + ('a bd_scheme \<times> (real \<times> int) option)) option" where
  "runs upd obj 0 r s loc = Some (Inr (s, loc))"
| "runs upd obj (Suc n) r s loc =
     (case run upd obj r s of
        None \<Rightarrow> None
      | Some (Inl e) \<Rightarrow> Some (Inl e)
      | Some (Inr (s', cobj, iter)) \<Rightarrow> runs upd obj n (Suc r) s' (Some (cobj, iter)))"

definition factorize_with ::
  "('a bd_scheme \<Rightarrow> 'a bd_scheme) \<Rightarrow> ('a bd_scheme \<Rightarrow> error + real) \<Rightarrow>
   'a bd_scheme \<Rightarrow> (error + 'a bd_scheme) option" where
  \<comment> \<open>\<open>Bd.factorize\<close> with the methods \<open>update\<close> and \<open>objective\<close> of the object. The
      returned \<open>Mf_fit(self)\<close> wraps the object, so the object is the result.\<close>
  "factorize_with upd obj s =
     (let s1 = set_params s;
          s2 = s1\<lparr>v := msum (multiply (store s1 ! V s1) (store s1 ! V s1)) / 2\<rparr>
      in case runs upd obj (nat (n_run s2)) 0 s2 None of
           None \<Rightarrow> None
         | Some (Inl e) \<Rightarrow> Some (Inl e)
         | Some (Inr (s3, None)) \<Rightarrow> Some (Inl UnboundLocalError)
         | Some (Inr (s3, Some (cobj, iter))) \<Rightarrow>
            Some (Inr (s3\<lparr>n_iter := iter, final_obj := cobj\<rparr>)))"

definition factorize :: "'a bd_scheme \<Rightarrow> (error + 'a bd_scheme) option" where
  "factorize s = factorize_with update objective s"

section \<open>Notions used to state the properties\<close>

text \<open>
  The stopping rule in the words of the specification: sweeping continues while all three
  conditions hold, where an option is unset when it has no value.
\<close>

definition unset :: "'b option \<Rightarrow> bool" where
  "unset x = (x = None)"

definition is_satisfied_spec :: "'a bd_scheme \<Rightarrow> real \<Rightarrow> real \<Rightarrow> int \<Rightarrow> bool" where
  "is_satisfied_spec s pobj cobj iter =
     ((iter = 0 \<or> unset (max_iters s) \<or>
         (case max_iters s of None \<Rightarrow> False | Some mi \<Rightarrow> iter \<le> mi)) \<and>
      (iter = 0 \<or> unset (min_residuals s) \<or>
         (case min_residuals s of None \<Rightarrow> False | Some mr \<Rightarrow> cobj - pobj > mr)) \<and>
      (iter = 0 \<or> cobj < pobj))"

text \<open>\<open>max_iters\<close> is unset, zero or at least one.\<close>

definition nonneg_max_iters :: "'a bd_scheme \<Rightarrow> bool" where
  "nonneg_max_iters s = (case max_iters s of None \<Rightarrow> True | Some mi \<Rightarrow> 0 \<le> mi)"

text \<open>
  The sum of the squared entries of the residual \<open>V - W\<cdot>H\<close>, and the shapes of a
  factorization of \<open>V\<close>: \<open>V\<close> is \<open>n \<times> m\<close>, \<open>W\<close> is \<open>n \<times> r\<close> and \<open>H\<close> is \<open>r \<times> m\<close>.
\<close>

definition residual_sq :: "matrix \<Rightarrow> matrix \<Rightarrow> matrix \<Rightarrow> real" where
  "residual_sq Vm Wm Hm =
     (\<Sum>i<nrows Vm. \<Sum>j<ncols Vm.
        (entry Vm i j - (\<Sum>l<ncols Wm. entry Wm i l * entry Hm l j))\<^sup>2)"

definition conform :: "matrix \<Rightarrow> matrix \<Rightarrow> matrix \<Rightarrow> bool" where
  "conform Vm Wm Hm = (ncols Wm = nrows Hm \<and> nrows Vm = nrows Wm \<and> ncols Vm = ncols Hm)"

text \<open>The pair of arrays that the seeder returns in run \<open>r\<close> of \<open>factorize\<close> on \<open>s\<close>.\<close>

definition seed_of :: "'a bd_scheme \<Rightarrow> nat \<Rightarrow> matrix \<times> matrix" where
  "seed_of s r = seed s r (store s ! V s) (rank s) (options s)"

definition seed_conform :: "'a bd_scheme \<Rightarrow> nat \<Rightarrow> bool" where
  "seed_conform s r = conform (store s ! V s) (fst (seed_of s r)) (snd (seed_of s r))"

text \<open>
  \<open>same_config s s'\<close>: \<open>s'\<close> differs from \<open>s\<close> at most in \<open>W\<close>, \<open>H\<close>, \<open>tracker\<close> and
  \<open>final_obj\<close> and in arrays added to the store; no array of \<open>s\<close> has changed.
\<close>

definition same_config :: "'a bd_scheme \<Rightarrow> 'a bd_scheme \<Rightarrow> bool" where
  "same_config s s' =
     (prefix (store s) (store s') \<and> V s' = V s \<and> rank s' = rank s \<and> options s' = options s \<and>
      seed s' = seed s \<and> n_run s' = n_run s \<and> max_iters s' = max_iters s \<and>
      min_residuals s' = min_residuals s \<and> test_conv s' = test_conv s \<and>
      callback s' = callback s \<and> m s' = m s \<and> alpha s' = alpha s \<and> beta s' = beta s \<and>
      theta s' = theta s \<and> k s' = k s \<and> sigma s' = sigma s \<and> skip s' = skip s \<and>
      stride s' = stride s \<and> chains s' = chains s \<and> n_w s' = n_w s \<and> n_h s' = n_h s \<and>
      n_sigma s' = n_sigma s \<and> v s' = v s \<and> n_iter s' = n_iter s \<and> bd.more s' = bd.more s)"

text \<open>The references held by the snapshots of a tracker, in order.\<close>

definition snapshot_refs :: "mf_track list \<Rightarrow> nat list" where
  "snapshot_refs t = concat (map (\<lambda>x. [track_W x, track_H x]) t)"

text \<open>
  The snapshots of the tracker refer to cells of the store, no cell twice and never to
  the cell of \<open>V\<close>.
\<close>

definition tracker_inv :: "'a bd_scheme \<Rightarrow> bool" where
  "tracker_inv s =
     (case tracker s of
        None \<Rightarrow> True
      | Some t \<Rightarrow> distinct (snapshot_refs t) \<and>
                 list_all (\<lambda>a. a < length (store s) \<and> a \<noteq> V s) (snapshot_refs t))"

text \<open>The object when the loop over the runs starts: after \<open>_set_params\<close> and \<open>self.v\<close>.\<close>

definition configured :: "'a bd_scheme \<Rightarrow> 'a bd_scheme" where
  "configured s =
     (set_params s)\<lparr>v := msum (multiply (store s ! V s) (store s ! V s)) / 2\<rparr>"

text \<open>Tracking is requested by a true value of the option \<open>track\<close>.\<close>

definition track_requested :: "'a bd_scheme \<Rightarrow> bool" where
  "track_requested s = (get (opt_track (options s)) 0 \<noteq> 0)"

section \<open>A test double with a prescribed objective\<close>

text \<open>
  A subclass of \<open>Bd\<close> for exercising the stopping rule: it counts its sweeps, and its
  objective after \<open>i\<close> sweeps is \<open>f i\<close> for a given trajectory \<open>f\<close>.
\<close>

record synth_bd = bd +
  sweeps_done :: nat

definition synth_update :: "'a synth_bd_scheme \<Rightarrow> 'a synth_bd_scheme" where
  "synth_update s = s\<lparr>sweeps_done := Suc (sweeps_done s)\<rparr>"

definition synth_objective :: "(nat \<Rightarrow> real) \<Rightarrow> 'a synth_bd_scheme \<Rightarrow> error + real" where
  "synth_objective f s = Inr (f (sweeps_done s))"

section \<open>Example objects\<close>

definition example_V :: matrix where
  "example_V = \<lparr>nrows = 2, ncols = 2, rows = [[1, 2], [3, 4]]\<rparr>"

definition example_seed :: "nat \<Rightarrow> matrix \<Rightarrow> nat \<Rightarrow> options \<Rightarrow> matrix \<times> matrix" where
  "example_seed r Vm rk opts =
     (tabulate (nrows Vm) rk (\<lambda>i j. real (r + 1)), tabulate rk (ncols Vm) (\<lambda>i j. 1))"

definition no_options :: options where
  "no_options =
     \<lparr>opt_m = None, opt_alpha = None, opt_beta = None, opt_theta = None, opt_k = None,
      opt_sigma = None, opt_skip = None, opt_stride = None, opt_chains = None,
      opt_n_w = None, opt_n_h = None, opt_n_sigma = None, opt_track = None\<rparr>"

definition example_bd :: bd where
  "example_bd =
     \<lparr>store = [example_V], V = 0, W = 0, H = 0, rank = 1, options = no_options,
      seed = example_seed, n_run = 3, max_iters = None, min_residuals = None,
      test_conv = None, callback = False, m = 0, alpha = zeros 0 0, beta = zeros 0 0,
      theta = 0, k = 0, sigma = 0, skip = 0, stride = 0, chains = 0, n_w = zeros 0 0,
      n_h = zeros 0 0, n_sigma = 0, tracker = None, v = 0, n_iter = 0, final_obj = 0\<rparr>"

definition example_synth :: synth_bd where
  "example_synth = bd.extend example_bd \<lparr>sweeps_done = 0\<rparr>"

text \<open>
  Options that break every rule of the specification for the hyperparameters: the prior
  rates have negative entries and the wrong shape, the masks have the wrong shape, and
  the prior scale of the noise variance is negative.
\<close>

definition bad_alpha :: matrix where
  "bad_alpha = tabulate 5 7 (\<lambda>i j. - 1)"

definition bad_beta :: matrix where
  "bad_beta = tabulate 3 1 (\<lambda>i j. - 2)"

definition bad_options :: options where
  "bad_options =
     no_options\<lparr>opt_alpha := Some bad_alpha,
                opt_beta := Some bad_beta,
                opt_theta := Some (- 1),
                opt_n_w := Some (zeros 4 4),
                opt_n_h := Some (zeros 9 2)\<rparr>"

text \<open>The example object with tracking requested.\<close>

definition example_tracked :: bd where
  "example_tracked = example_bd\<lparr>options := no_options\<lparr>opt_track := Some 1\<rparr>\<rparr>"

text \<open>The example object with the bad options.\<close>

definition example_bad :: bd where
  "example_bad = example_bd\<lparr>options := bad_options\<rparr>"

text \<open>A seeder whose \<open>W\<close> has three rows, and the example object with this seeder.\<close>

definition mismatched_seed :: "nat \<Rightarrow> matrix \<Rightarrow> nat \<Rightarrow> options \<Rightarrow> matrix \<times> matrix" where
  "mismatched_seed r Vm rk opts = (zeros 3 1, zeros 1 2)"

definition example_mismatched :: bd where
  "example_mismatched = example_bd\<lparr>seed := mismatched_seed\<rparr>"

text \<open>What the facts about the example objects depend on.\<close>

definition example_like :: "'a bd_scheme \<Rightarrow> bool" where
  "example_like s =
     (V s < length (store s) \<and> store s ! V s = example_V \<and> seed s = example_seed \<and>
      rank s = 1 \<and> max_iters s = None)"

section \<open>Lemmas\<close>

subsection \<open>Matrices and the objective\<close>

lemma nrows_tabulate [simp]: "nrows (tabulate r c f) = r"
  and ncols_tabulate [simp]: "ncols (tabulate r c f) = c"
  by (simp_all add: tabulate_def)

lemma entry_tabulate: "i < r \<Longrightarrow> j < c \<Longrightarrow> entry (tabulate r c f) i j = f i j"
  by (simp add: tabulate_def entry_def)

lemma sum_list_map_upt0: "sum_list (map g [0..<n]) = (\<Sum>i<n. g i)"
  by (simp add: interv_sum_list_conv_sum_set_nat atLeast0LessThan)

lemma msum_tabulate: "msum (tabulate r c f) = (\<Sum>i<r. \<Sum>j<c. f i j)"
  by (simp add: msum_def tabulate_def comp_def sum_list_map_upt0)

lemma broadcast_index: "i < n \<Longrightarrow> (if n = Suc 0 then 0 else i) = i"
  by auto

lemma objective_conform:
  assumes "conform (store s ! V s) (store s ! W s) (store s ! H s)"
  shows "objective s = Inr (residual_sq (store s ! V s) (store s ! W s) (store s ! H s))"
proof -
  let ?V = "store s ! V s" and ?W = "store s ! W s" and ?H = "store s ! H s"
  let ?P = "tabulate (nrows ?W) (ncols ?H)
              (\<lambda>i j. sum_list (map (\<lambda>l. entry ?W i l * entry ?H l j) [0..<ncols ?W]))"
  let ?R = "tabulate (nrows ?V) (ncols ?V)
              (\<lambda>i j. entry ?V (if nrows ?V = 1 then 0 else i) (if ncols ?V = 1 then 0 else j) -
                     entry ?P (if nrows ?V = 1 then 0 else i) (if ncols ?V = 1 then 0 else j))"
  from assms have d: "dot ?W ?H = Inr ?P" and r: "nrows ?V = nrows ?W" and c: "ncols ?V = ncols ?H"
    by (simp_all add: conform_def dot_def)
  have m: "minus_matrix ?V ?P = Inr ?R"
    using r c by (simp add: minus_matrix_def)
  have "msum (elop_pow ?R 2) = residual_sq ?V ?W ?H"
    unfolding residual_sq_def elop_pow_def msum_tabulate nrows_tabulate ncols_tabulate
  proof (intro sum.cong refl)
    fix i j
    assume "i \<in> {..<nrows ?V}" and "j \<in> {..<ncols ?V}"
    then have i: "i < nrows ?V" and j: "j < ncols ?V" by simp_all
    have "entry ?R i j = entry ?V i j - entry ?P i j"
      using i j by (simp add: entry_tabulate broadcast_index split del: if_split)
    also have "entry ?P i j = (\<Sum>l<ncols ?W. entry ?W i l * entry ?H l j)"
      using i j r c by (simp add: entry_tabulate sum_list_map_upt0)
    finally show "(entry ?R i j)\<^sup>2 =
                  (entry ?V i j - (\<Sum>l<ncols ?W. entry ?W i l * entry ?H l j))\<^sup>2"
      by simp
  qed
  then show ?thesis
    by (simp add: objective_def d m)
qed

lemma sweep_bd:
  assumes "objective s = Inr c"
  shows "sweep update objective s p c i = Inr (s, c, c, i + 1)"
  using assms by (simp add: sweep_def update_def)

lemma is_satisfied_0: "is_satisfied s c c 0 = nonneg_max_iters s"
  by (auto simp: is_satisfied_def nonneg_max_iters_def split: option.splits)

lemma is_satisfied_stalled: "0 < i \<Longrightarrow> \<not> is_satisfied s c c i"
  by (simp add: is_satisfied_def)

lemma sweep_loop_bd:
  assumes "objective s = Inr c"
  shows "sweep_loop update objective s c c 0 =
           Some (Inr (s, c, if nonneg_max_iters s then 1 else 0))"
proof (cases "nonneg_max_iters s")
  case True
  have "sweep_loop update objective s c c 0 = sweep_loop update objective s c c 1"
    by (subst sweep_loop.simps) (simp add: is_satisfied_0 True sweep_bd [OF assms])
  also have "\<dots> = Some (Inr (s, c, 1))"
    by (subst sweep_loop.simps) (simp add: is_satisfied_stalled)
  finally show ?thesis using True by simp
next
  case False
  then show ?thesis
    by (subst sweep_loop.simps) (simp add: is_satisfied_0)
qed

lemma run_bd:
  "run update objective r s =
     (case run_start objective r s of
        Inl e \<Rightarrow> Some (Inl e)
      | Inr (s1, pobj, cobj, iter) \<Rightarrow>
          Some (Inr (run_finish s1 cobj, cobj, if nonneg_max_iters s then 1 else 0)))"
proof (cases "run_start objective r s")
  case (Inl e)
  then show ?thesis by (simp add: run_def)
next
  case (Inr x)
  obtain s1 pobj cobj iter where x: "x = (s1, pobj, cobj, iter)" by (cases x)
  from Inr x have o: "objective s1 = Inr cobj" and p: "pobj = cobj" and i: "iter = 0"
    and m: "max_iters s1 = max_iters s"
    by (auto simp: run_start_def initialize_def Let_def split: prod.splits sum.splits)
  show ?thesis
    using Inr x p i m sweep_loop_bd [OF o] by (simp add: run_def nonneg_max_iters_def)
qed

subsection \<open>What a run leaves unchanged\<close>

lemma same_config_refl: "same_config s s"
  by (simp add: same_config_def)

lemma same_config_trans: "same_config a b \<Longrightarrow> same_config b c \<Longrightarrow> same_config a c"
  unfolding same_config_def by (elim conjE, intro conjI) (auto elim: prefix_order.trans)

lemma same_config_initialize: "same_config s (initialize r s)"
  by (simp add: same_config_def initialize_def split: prod.splits)

lemma same_config_run_finish: "same_config s (run_finish s c)"
  by (simp add: same_config_def run_finish_def copy_def Let_def split: option.splits prod.splits)

lemma prefix_nth: "prefix xs ys \<Longrightarrow> i < length xs \<Longrightarrow> ys ! i = xs ! i"
  by (auto simp: prefix_def nth_append)

lemma same_config_V:
  "same_config s s' \<Longrightarrow> V s < length (store s) \<Longrightarrow>
     V s' < length (store s') \<and> store s' ! V s' = store s ! V s"
  unfolding same_config_def
  by (elim conjE) (auto simp: prefix_nth dest: prefix_length_le)

lemma same_config_seed_of:
  "same_config s s' \<Longrightarrow> V s < length (store s) \<Longrightarrow> seed_of s' r = seed_of s r"
  using same_config_V [of s s'] by (simp add: seed_of_def same_config_def)

lemma same_config_seed_conform:
  "same_config s s' \<Longrightarrow> V s < length (store s) \<Longrightarrow> seed_conform s' r = seed_conform s r"
  using same_config_V [of s s'] same_config_seed_of [of s s' r] by (simp add: seed_conform_def)

lemma same_config_nonneg_max_iters:
  "same_config s s' \<Longrightarrow> nonneg_max_iters s' = nonneg_max_iters s"
  by (simp add: same_config_def nonneg_max_iters_def)

lemma store_initialize:
  "store (initialize r s) = store s @ [fst (seed_of s r), snd (seed_of s r)]"
  by (simp add: initialize_def seed_of_def split: prod.splits)

lemma W_initialize: "W (initialize r s) = length (store s)"
  and H_initialize: "H (initialize r s) = length (store s) + 1"
  and tracker_initialize: "tracker (initialize r s) = tracker s"
  and callback_initialize: "callback (initialize r s) = callback s"
  and final_obj_initialize: "final_obj (initialize r s) = final_obj s"
  by (simp_all add: initialize_def split: prod.splits)

lemma initialize_W_H:
  "store (initialize r s) ! W (initialize r s) = fst (seed_of s r)"
  "store (initialize r s) ! H (initialize r s) = snd (seed_of s r)"
  by (simp_all add: store_initialize W_initialize H_initialize nth_append)

lemma initialize_V:
  "V s < length (store s) \<Longrightarrow> store (initialize r s) ! V (initialize r s) = store s ! V s"
  using same_config_V [OF same_config_initialize] by blast

lemma objective_initialize:
  assumes "V s < length (store s)" and "seed_conform s r"
  shows "objective (initialize r s) =
           Inr (residual_sq (store s ! V s) (fst (seed_of s r)) (snd (seed_of s r)))"
  using objective_conform [of "initialize r s"] assms(2)
  by (simp add: seed_conform_def initialize_W_H initialize_V [OF assms(1)])

lemma W_run_finish: "W (run_finish s c) = W s"
  and H_run_finish: "H (run_finish s c) = H s"
  and final_obj_run_finish: "final_obj (run_finish s c) = (if callback s then c else final_obj s)"
  by (simp_all add: run_finish_def copy_def Let_def split: option.splits)

lemma store_run_finish:
  "H s < length (store s) \<Longrightarrow> store (run_finish s c) =
     store s @ (case tracker s of None \<Rightarrow> [] | Some t \<Rightarrow> [store s ! W s, store s ! H s])"
  by (simp add: run_finish_def copy_def Let_def nth_append split: option.splits)

lemma tracker_run_finish:
  "tracker (run_finish s c) =
     (case tracker s of
        None \<Rightarrow> None
      | Some t \<Rightarrow> Some (t @ [\<lparr>track_W = length (store s), track_H = length (store s) + 1\<rparr>]))"
  by (simp add: run_finish_def copy_def Let_def split: option.splits)

lemma run_bd_cases:
  assumes "V s < length (store s)" and "seed_conform s r"
  shows "run update objective r s =
           Some (Inr (run_finish (initialize r s)
                        (residual_sq (store s ! V s) (fst (seed_of s r)) (snd (seed_of s r))),
                      residual_sq (store s ! V s) (fst (seed_of s r)) (snd (seed_of s r)),
                      if nonneg_max_iters s then 1 else 0))"
  by (simp add: run_bd run_start_def objective_initialize [OF assms])

lemma run_same_config:
  assumes "run update objective r s = Some (Inr (s', c, i))"
  shows "same_config s s'"
proof -
  from assms obtain c' where "s' = run_finish (initialize r s) c'"
    by (auto simp: run_bd run_start_def Let_def split: sum.splits)
  then show ?thesis
    using same_config_trans [OF same_config_initialize same_config_run_finish] by simp
qed

lemma run_sweeps:
  assumes "run update objective r s = Some (Inr (s', c, i))"
  shows "i = (if nonneg_max_iters s then 1 else 0)"
  using assms by (auto simp: run_bd run_start_def Let_def split: sum.splits)

subsection \<open>The loop over the runs\<close>

lemma runs_total: "\<exists>res. runs update objective n r s loc = Some res"
proof (induction n arbitrary: r s loc)
  case 0
  show ?case by simp
next
  case (Suc n)
  show ?case
  proof (cases "run_start objective r s")
    case (Inl e)
    then show ?thesis by (simp add: run_bd)
  next
    case (Inr x)
    then show ?thesis using Suc.IH by (cases x) (simp add: run_bd)
  qed
qed

lemma runs_Suc_Inr:
  assumes "runs update objective (Suc n) r s loc = Some (Inr (s', loc'))"
  obtains s1 c i where "run update objective r s = Some (Inr (s1, c, i))"
    and "runs update objective n (Suc r) s1 (Some (c, i)) = Some (Inr (s', loc'))"
  using assms by (auto split: option.splits sum.splits)

lemma runs_same_config:
  "runs update objective n r s loc = Some (Inr (s', loc')) \<Longrightarrow> same_config s s'"
proof (induction n arbitrary: r s loc)
  case 0
  then show ?case by (simp add: same_config_refl)
next
  case (Suc n)
  from Suc.prems obtain s1 c i where 1: "run update objective r s = Some (Inr (s1, c, i))"
    and 2: "runs update objective n (Suc r) s1 (Some (c, i)) = Some (Inr (s', loc'))"
    by (rule runs_Suc_Inr)
  show ?case
    using same_config_trans [OF run_same_config [OF 1] Suc.IH [OF 2]] .
qed

lemma runs_loc:
  "runs update objective n r s loc = Some (Inr (s', loc')) \<Longrightarrow> 0 < n \<Longrightarrow>
     \<exists>c. loc' = Some (c, if nonneg_max_iters s then 1 else 0)"
proof (induction n arbitrary: r s loc)
  case 0
  then show ?case by simp
next
  case (Suc n)
  from Suc.prems(1) obtain s1 c i where 1: "run update objective r s = Some (Inr (s1, c, i))"
    and 2: "runs update objective n (Suc r) s1 (Some (c, i)) = Some (Inr (s', loc'))"
    by (rule runs_Suc_Inr)
  note i = run_sweeps [OF 1]
  note sc = same_config_nonneg_max_iters [OF run_same_config [OF 1]]
  show ?case
  proof (cases n)
    case 0
    with 2 i show ?thesis by auto
  next
    case (Suc n')
    then show ?thesis using Suc.IH [OF 2] sc by simp
  qed
qed

lemma runs_success:
  "V s < length (store s) \<Longrightarrow> \<forall>j<n. seed_conform s (r + j) \<Longrightarrow>
     \<exists>s' loc'. runs update objective n r s loc = Some (Inr (s', loc'))"
proof (induction n arbitrary: r s loc)
  case 0
  show ?case by simp
next
  case (Suc n)
  from Suc.prems(2) have c0: "seed_conform s r" by force
  then obtain s1 c i where 1: "run update objective r s = Some (Inr (s1, c, i))"
    by (simp add: run_bd_cases [OF Suc.prems(1)])
  note sc = run_same_config [OF 1]
  have v1: "V s1 < length (store s1)"
    using same_config_V [OF sc Suc.prems(1)] by simp
  have "\<forall>j<n. seed_conform s1 (Suc r + j)"
    using Suc.prems(2) by (auto simp: same_config_seed_conform [OF sc Suc.prems(1)])
  from Suc.IH [OF v1 this] show ?case using 1 by simp
qed

lemma run_W_H:
  assumes "run update objective r s = Some (Inr (s', c, i))"
  shows "W s' < length (store s') \<and> H s' < length (store s') \<and>
         store s' ! W s' = fst (seed_of s r) \<and> store s' ! H s' = snd (seed_of s r)"
proof -
  from assms obtain c' where s': "s' = run_finish (initialize r s) c'"
    by (auto simp: run_bd run_start_def Let_def split: sum.splits)
  have "H (initialize r s) < length (store (initialize r s))"
    by (simp add: H_initialize store_initialize)
  from store_run_finish [OF this] show ?thesis
    by (simp add: s' W_run_finish H_run_finish W_initialize H_initialize
        store_initialize nth_append)
qed

lemma runs_last:
  "runs update objective n r s loc = Some (Inr (s', loc')) \<Longrightarrow> 0 < n \<Longrightarrow>
   V s < length (store s) \<Longrightarrow>
     W s' < length (store s') \<and> H s' < length (store s') \<and>
     store s' ! W s' = fst (seed_of s (r + n - 1)) \<and>
     store s' ! H s' = snd (seed_of s (r + n - 1))"
proof (induction n arbitrary: r s loc)
  case 0
  then show ?case by simp
next
  case (Suc n)
  from Suc.prems(1) obtain s1 c i where 1: "run update objective r s = Some (Inr (s1, c, i))"
    and 2: "runs update objective n (Suc r) s1 (Some (c, i)) = Some (Inr (s', loc'))"
    by (rule runs_Suc_Inr)
  note sc = run_same_config [OF 1]
  have v1: "V s1 < length (store s1)"
    using same_config_V [OF sc Suc.prems(3)] by simp
  show ?case
  proof (cases n)
    case 0
    with 2 run_W_H [OF 1] show ?thesis by simp
  next
    case (Suc n')
    then show ?thesis
      using Suc.IH [OF 2 _ v1] by (simp add: same_config_seed_of [OF sc Suc.prems(3)])
  qed
qed

subsection \<open>The tracker\<close>

lemma snapshot_refs_snoc:
  "snapshot_refs (t @ [x]) = snapshot_refs t @ [track_W x, track_H x]"
  by (simp add: snapshot_refs_def)

lemma run_tracker_None:
  assumes "run update objective r s = Some (Inr (s', c, i))" and "tracker s = None"
  shows "tracker s' = None"
proof -
  from assms(1) obtain c' where s': "s' = run_finish (initialize r s) c'"
    by (auto simp: run_bd run_start_def Let_def split: sum.splits)
  show ?thesis by (simp add: s' tracker_run_finish tracker_initialize assms(2))
qed

lemma run_tracker:
  assumes run: "run update objective r s = Some (Inr (s', c, i))"
    and t0: "tracker s = Some t0"
    and v: "V s < length (store s)"
    and inv: "tracker_inv s"
  shows "\<exists>x. tracker s' = Some (t0 @ [x]) \<and>
             track_W x < length (store s') \<and> track_H x < length (store s') \<and>
             store s' ! track_W x = fst (seed_of s r) \<and>
             store s' ! track_H x = snd (seed_of s r) \<and>
             tracker_inv s' \<and>
             W s' \<notin> set (snapshot_refs (t0 @ [x])) \<and> H s' \<notin> set (snapshot_refs (t0 @ [x]))"
proof -
  from run obtain c' where s': "s' = run_finish (initialize r s) c'"
    by (auto simp: run_bd run_start_def Let_def split: sum.splits)
  let ?n = "length (store s)"
  let ?x = "\<lparr>track_W = ?n + 2, track_H = ?n + 3\<rparr>"
  have h: "H (initialize r s) < length (store (initialize r s))"
    by (simp add: H_initialize store_initialize)
  have st: "store s' = store s @ [fst (seed_of s r), snd (seed_of s r),
                                   fst (seed_of s r), snd (seed_of s r)]"
    by (simp add: s' store_run_finish [OF h] tracker_initialize t0 store_initialize
        W_initialize H_initialize nth_append)
  have tr: "tracker s' = Some (t0 @ [?x])"
    by (simp add: s' tracker_run_finish tracker_initialize t0 store_initialize)
  have wh: "W s' = ?n" "H s' = ?n + 1"
    by (simp_all add: s' W_run_finish H_run_finish W_initialize H_initialize)
  have vs: "V s' = V s"
    using run_same_config [OF run] by (simp add: same_config_def)
  from inv t0 have d: "distinct (snapshot_refs t0)"
    and b: "\<forall>a\<in>set (snapshot_refs t0). a < ?n \<and> a \<noteq> V s"
    by (simp_all add: tracker_inv_def list_all_iff)
  have inv': "tracker_inv s'"
    using d b v by (auto simp: tracker_inv_def tr snapshot_refs_snoc st vs list_all_iff)
  have apart: "W s' \<notin> set (snapshot_refs (t0 @ [?x]))" "H s' \<notin> set (snapshot_refs (t0 @ [?x]))"
    using b by (auto simp: wh snapshot_refs_snoc)
  show ?thesis
    using tr inv' apart by (intro exI [of _ ?x]) (simp add: st nth_append)
qed

lemma run_snapshot:
  assumes run: "run update objective r s = Some (Inr (s1, c, i))"
    and t0: "tracker s = Some t0"
  shows "\<exists>x. tracker s1 = Some (t0 @ [x]) \<and>
             store s1 ! track_W x = store s1 ! W s1 \<and> store s1 ! track_H x = store s1 ! H s1 \<and>
             track_W x \<noteq> W s1 \<and> track_W x \<noteq> H s1 \<and> track_H x \<noteq> W s1 \<and>
             track_H x \<noteq> H s1 \<and> track_W x \<noteq> track_H x"
proof -
  from run obtain c' where s1: "s1 = run_finish (initialize r s) c'"
    by (auto simp: run_bd run_start_def Let_def split: sum.splits)
  let ?n = "length (store s)"
  have h: "H (initialize r s) < length (store (initialize r s))"
    by (simp add: H_initialize store_initialize)
  have st: "store s1 = store s @ [fst (seed_of s r), snd (seed_of s r),
                                   fst (seed_of s r), snd (seed_of s r)]"
    by (simp add: s1 store_run_finish [OF h] tracker_initialize t0 store_initialize
        W_initialize H_initialize nth_append)
  have tr: "tracker s1 = Some (t0 @ [\<lparr>track_W = ?n + 2, track_H = ?n + 3\<rparr>])"
    by (simp add: s1 tracker_run_finish tracker_initialize t0 store_initialize)
  have wh: "W s1 = ?n" "H s1 = ?n + 1"
    by (simp_all add: s1 W_run_finish H_run_finish W_initialize H_initialize)
  show ?thesis
    by (simp add: tr wh st nth_append)
qed

lemma runs_tracker_None:
  "runs update objective n r s loc = Some (Inr (s', loc')) \<Longrightarrow> tracker s = None \<Longrightarrow>
     tracker s' = None"
proof (induction n arbitrary: r s loc)
  case 0
  then show ?case by simp
next
  case (Suc n)
  from Suc.prems(1) obtain s1 c i where 1: "run update objective r s = Some (Inr (s1, c, i))"
    and 2: "runs update objective n (Suc r) s1 (Some (c, i)) = Some (Inr (s', loc'))"
    by (rule runs_Suc_Inr)
  from Suc.IH [OF 2 run_tracker_None [OF 1 Suc.prems(2)]] show ?case .
qed

lemma runs_tracker:
  "runs update objective n r s loc = Some (Inr (s', loc')) \<Longrightarrow> tracker s = Some t0 \<Longrightarrow>
   V s < length (store s) \<Longrightarrow> tracker_inv s \<Longrightarrow>
     \<exists>t'. tracker s' = Some (t0 @ t') \<and> length t' = n \<and> tracker_inv s' \<and>
          (0 < n \<longrightarrow> W s' \<notin> set (snapshot_refs (t0 @ t')) \<and>
                     H s' \<notin> set (snapshot_refs (t0 @ t'))) \<and>
          (\<forall>j<n. store s' ! track_W (t' ! j) = fst (seed_of s (r + j)) \<and>
                  store s' ! track_H (t' ! j) = snd (seed_of s (r + j)))"
proof (induction n arbitrary: r s loc t0)
  case 0
  then show ?case by simp
next
  case (Suc n)
  from Suc.prems(1) obtain s1 c i where 1: "run update objective r s = Some (Inr (s1, c, i))"
    and 2: "runs update objective n (Suc r) s1 (Some (c, i)) = Some (Inr (s', loc'))"
    by (rule runs_Suc_Inr)
  note sc = run_same_config [OF 1]
  have v1: "V s1 < length (store s1)"
    using same_config_V [OF sc Suc.prems(3)] by simp
  from run_tracker [OF 1 Suc.prems(2) Suc.prems(3) Suc.prems(4)]
  obtain x where x: "tracker s1 = Some (t0 @ [x])"
    and xb: "track_W x < length (store s1)" "track_H x < length (store s1)"
    and xc: "store s1 ! track_W x = fst (seed_of s r)" "store s1 ! track_H x = snd (seed_of s r)"
    and inv1: "tracker_inv s1"
    and apart1: "W s1 \<notin> set (snapshot_refs (t0 @ [x]))" "H s1 \<notin> set (snapshot_refs (t0 @ [x]))"
    by blast
  from Suc.IH [OF 2 x v1 inv1]
  obtain t' where t': "tracker s' = Some ((t0 @ [x]) @ t')" and len: "length t' = n"
    and inv': "tracker_inv s'"
    and apart': "0 < n \<longrightarrow> W s' \<notin> set (snapshot_refs ((t0 @ [x]) @ t')) \<and>
                     H s' \<notin> set (snapshot_refs ((t0 @ [x]) @ t'))"
    and cont: "\<forall>j<n. store s' ! track_W (t' ! j) = fst (seed_of s1 (Suc r + j)) \<and>
                  store s' ! track_H (t' ! j) = snd (seed_of s1 (Suc r + j))"
    by blast
  have pre: "prefix (store s1) (store s')"
    using runs_same_config [OF 2] by (simp add: same_config_def)
  have x': "store s' ! track_W x = fst (seed_of s r)" "store s' ! track_H x = snd (seed_of s r)"
    using prefix_nth [OF pre] xb xc by simp_all
  have apart: "W s' \<notin> set (snapshot_refs (t0 @ x # t')) \<and>
               H s' \<notin> set (snapshot_refs (t0 @ x # t'))"
  proof (cases n)
    case 0
    with 2 len apart1 show ?thesis by simp
  next
    case (Suc n')
    with apart' show ?thesis by simp
  qed
  have "\<forall>j<Suc n. store s' ! track_W ((x # t') ! j) = fst (seed_of s (r + j)) \<and>
                  store s' ! track_H ((x # t') ! j) = snd (seed_of s (r + j))"
  proof (intro allI impI)
    fix j assume "j < Suc n"
    show "store s' ! track_W ((x # t') ! j) = fst (seed_of s (r + j)) \<and>
          store s' ! track_H ((x # t') ! j) = snd (seed_of s (r + j))"
    proof (cases j)
      case 0
      then show ?thesis using x' by simp
    next
      case (Suc j')
      with \<open>j < Suc n\<close> cont show ?thesis
        by (simp add: same_config_seed_of [OF sc Suc.prems(3)])
    qed
  qed
  then show ?case
    using t' len inv' apart by (intro exI [of _ "x # t'"]) simp
qed

subsection \<open>\<open>factorize\<close>\<close>

lemma configured_fields:
  "store (configured s) = store s" "V (configured s) = V s" "rank (configured s) = rank s"
  "options (configured s) = options s" "seed (configured s) = seed s"
  "n_run (configured s) = n_run s" "max_iters (configured s) = max_iters s"
  "W (configured s) = W s" "H (configured s) = H s"
  by (simp_all add: configured_def set_params_def)

lemma tracker_configured:
  "tracker (configured s) = (if track_requested s \<and> 1 < n_run s then Some [] else None)"
  by (simp add: configured_def set_params_def track_requested_def)

lemma configured_params:
  "alpha (configured s) = alpha (set_params s)" "beta (configured s) = beta (set_params s)"
  "theta (configured s) = theta (set_params s)" "k (configured s) = k (set_params s)"
  "n_w (configured s) = n_w (set_params s)" "n_h (configured s) = n_h (set_params s)"
  "sigma (configured s) = sigma (set_params s)"
  by (simp_all add: configured_def)

lemma seed_of_configured: "seed_of (configured s) r = seed_of s r"
  by (simp add: seed_of_def configured_fields)

lemma seed_conform_configured: "seed_conform (configured s) r = seed_conform s r"
  by (simp add: seed_conform_def seed_of_configured configured_fields)

lemma nonneg_max_iters_configured: "nonneg_max_iters (configured s) = nonneg_max_iters s"
  by (simp add: nonneg_max_iters_def configured_fields)

lemma tracker_inv_configured: "tracker_inv (configured s)"
  by (simp add: tracker_inv_def tracker_configured snapshot_refs_def)

lemma factorize_runs:
  "factorize s =
     (case runs update objective (nat (n_run s)) 0 (configured s) None of
        None \<Rightarrow> None
      | Some (Inl e) \<Rightarrow> Some (Inl e)
      | Some (Inr (s3, None)) \<Rightarrow> Some (Inl UnboundLocalError)
      | Some (Inr (s3, Some (cobj, iter))) \<Rightarrow>
          Some (Inr (s3\<lparr>n_iter := iter, final_obj := cobj\<rparr>)))"
  by (simp add: factorize_def factorize_with_def configured_def Let_def set_params_def)

lemma factorize_total: "\<exists>res. factorize s = Some res"
proof -
  obtain res where "runs update objective (nat (n_run s)) 0 (configured s) None = Some res"
    using runs_total by blast
  then show ?thesis
    by (simp add: factorize_runs split: sum.splits prod.splits option.splits)
qed

lemma factorize_Inr:
  assumes "factorize s = Some (Inr s')"
  obtains s3 c where
    "runs update objective (nat (n_run s)) 0 (configured s) None =
       Some (Inr (s3, Some (c, if nonneg_max_iters s then 1 else 0)))"
    and "s' = s3\<lparr>n_iter := (if nonneg_max_iters s then 1 else 0), final_obj := c\<rparr>"
    and "0 < nat (n_run s)"
proof -
  from assms obtain s3 c i where
    r: "runs update objective (nat (n_run s)) 0 (configured s) None = Some (Inr (s3, Some (c, i)))"
    and s': "s' = s3\<lparr>n_iter := i, final_obj := c\<rparr>"
    by (auto simp: factorize_runs split: sum.splits prod.splits option.splits)
  have pos: "0 < nat (n_run s)"
  proof (rule ccontr)
    assume "\<not> 0 < nat (n_run s)"
    with r show False by simp
  qed
  from runs_loc [OF r pos] have "i = (if nonneg_max_iters s then 1 else 0)"
    by (simp add: nonneg_max_iters_configured)
  with r s' pos that show ?thesis by blast
qed

lemma factorize_success:
  assumes "V s < length (store s)" and "1 \<le> n_run s"
    and "\<forall>j<nat (n_run s). seed_conform s j"
  shows "\<exists>s'. factorize s = Some (Inr s')"
proof -
  have "\<forall>j<nat (n_run s). seed_conform (configured s) (0 + j)"
    using assms(3) by (simp add: seed_conform_configured)
  from runs_success [OF _ this, of None] assms(1)
  obtain s3 loc' where
    r: "runs update objective (nat (n_run s)) 0 (configured s) None = Some (Inr (s3, loc'))"
    by (auto simp: configured_fields)
  from assms(2) have "0 < nat (n_run s)" by simp
  from runs_loc [OF r this] obtain c i where "loc' = Some (c, i)" by blast
  with r show ?thesis by (simp add: factorize_runs)
qed


subsection \<open>The loop of the test double\<close>

lemma synth_fields [simp]:
  "max_iters (synth_update s) = max_iters s"
  "min_residuals (synth_update s) = min_residuals s"
  "test_conv (synth_update s) = test_conv s"
  "sweeps_done (synth_update s) = Suc (sweeps_done s)"
  by (simp_all add: synth_update_def)

lemma sweep_synth:
  assumes "test_conv s = None"
  shows "sweep synth_update (synth_objective f) s p c i =
           Inr (synth_update s, c, f (Suc (sweeps_done s)), i + 1)"
  using assms by (simp add: sweep_def synth_objective_def)

lemma synth_loop_decreasing:
  assumes n: "0 < n" and f: "\<forall>i. f (Suc i) < f i"
  shows "max_iters s = Some n \<Longrightarrow> min_residuals s = None \<Longrightarrow> test_conv s = None \<Longrightarrow>
         sweeps_done s = j \<Longrightarrow> int j \<le> n + 1 \<Longrightarrow> (0 < j \<longrightarrow> f j < p) \<Longrightarrow>
         sweep_loop synth_update (synth_objective f) s p (f j) (int j) =
           Some (Inr (s\<lparr>sweeps_done := nat n + 1\<rparr>, f (nat n + 1), n + 1))"
proof (induction d \<equiv> "nat n + 1 - j" arbitrary: s j p)
  case 0
  from n "0.hyps" "0.prems"(5) have j: "j = nat n + 1" by linarith
  have stop: "\<not> is_satisfied s p (f j) (int j)"
    using n j "0.prems"(1) by (simp add: is_satisfied_def)
  have "s\<lparr>sweeps_done := nat n + 1\<rparr> = s"
    using "0.prems"(4) j by simp
  with stop show ?case
    using n j by (subst sweep_loop.simps) simp
next
  case (Suc d)
  from n Suc.hyps(2) have j: "int j \<le> n" by linarith
  have go: "is_satisfied s p (f j) (int j)"
    using j Suc.prems by (auto simp: is_satisfied_def)
  have step: "sweep synth_update (synth_objective f) s p (f j) (int j) =
                Inr (synth_update s, f j, f (Suc j), int (Suc j))"
    using Suc.prems by (simp add: sweep_synth)
  have "sweep_loop synth_update (synth_objective f) (synth_update s) (f j) (f (Suc j))
          (int (Suc j)) =
        Some (Inr ((synth_update s)\<lparr>sweeps_done := nat n + 1\<rparr>, f (nat n + 1), n + 1))"
  proof (rule Suc.hyps(1))
    show "d = nat n + 1 - Suc j" using Suc.hyps(2) by simp
    show "int (Suc j) \<le> n + 1" using j by simp
    show "0 < Suc j \<longrightarrow> f (Suc j) < f j" using f by simp
  qed (simp_all add: Suc.prems)
  moreover have "(synth_update s)\<lparr>sweeps_done := nat n + 1\<rparr> = s\<lparr>sweeps_done := nat n + 1\<rparr>"
    by (simp add: synth_update_def)
  ultimately show ?case
    using go step by (subst sweep_loop.simps) simp
qed

lemma synth_loop_100_80_85:
  assumes "max_iters s = None" and "min_residuals s = Some 0" and "test_conv s = None"
    and "sweeps_done s = 0"
  shows "sweep_loop synth_update (synth_objective (\<lambda>i. [100, 80, 85] ! i)) s 100 100 0 =
           Some (Inr (s\<lparr>sweeps_done := 2\<rparr>, 85, 2))"
proof -
  let ?f = "\<lambda>i. [100, 80, 85 :: real] ! i"
  have "sweep_loop synth_update (synth_objective ?f) s 100 100 0 =
        sweep_loop synth_update (synth_objective ?f) (synth_update s) 100 80 1"
    by (subst sweep_loop.simps) (simp add: is_satisfied_def sweep_synth assms)
  also have "\<dots> = sweep_loop synth_update (synth_objective ?f)
                     (synth_update (synth_update s)) 80 85 2"
    by (subst sweep_loop.simps) (simp add: is_satisfied_def sweep_synth assms)
  also have "\<dots> = Some (Inr (synth_update (synth_update s), 85, 2))"
    by (subst sweep_loop.simps) (simp add: is_satisfied_def)
  also have "synth_update (synth_update s) = s\<lparr>sweeps_done := 2\<rparr>"
    by (simp add: synth_update_def assms)
  finally show ?thesis .
qed

lemma factorize_with_single_run:
  assumes n: "n_run s = 1"
    and o: "obj (initialize 0 (configured s)) = Inr c0"
    and l: "sweep_loop upd obj (initialize 0 (configured s)) c0 c0 0 = Some (Inr (s2, c, i))"
  shows "factorize_with upd obj s =
           Some (Inr ((run_finish s2 c)\<lparr>n_iter := i, final_obj := c\<rparr>))"
proof -
  have "run upd obj 0 (configured s) = Some (Inr (run_finish s2 c, c, i))"
    using o l by (simp add: run_def run_start_def)
  then have "runs upd obj (Suc 0) 0 (configured s) None =
               Some (Inr (run_finish s2 c, Some (c, i)))"
    by simp
  moreover have "nat (n_run (configured s)) = Suc 0"
    using n by (simp add: configured_fields)
  ultimately show ?thesis
    by (simp add: factorize_with_def configured_def Let_def set_params_def)
qed

lemma synth_initialize_configured:
  "sweeps_done (initialize 0 (configured s)) = sweeps_done s"
  "max_iters (initialize 0 (configured s)) = max_iters s"
  "min_residuals (initialize 0 (configured s)) = min_residuals s"
  "test_conv (initialize 0 (configured s)) = test_conv s"
  by (simp_all add: initialize_def configured_def set_params_def split: prod.splits)

lemma synth_run_finish:
  "sweeps_done (run_finish s c) = sweeps_done s"
  by (simp add: run_finish_def copy_def Let_def split: option.splits)

subsection \<open>Further facts about \<open>factorize\<close> and the example objects\<close>

lemma factorize_frame:
  assumes "factorize s = Some (Inr s')"
  shows "same_config (configured s) (s'\<lparr>n_iter := n_iter (configured s)\<rparr>)"
proof -
  from assms obtain s3 c where
    r: "runs update objective (nat (n_run s)) 0 (configured s) None =
          Some (Inr (s3, Some (c, if nonneg_max_iters s then 1 else 0)))"
    and s': "s' = s3\<lparr>n_iter := (if nonneg_max_iters s then 1 else 0), final_obj := c\<rparr>"
    by (rule factorize_Inr)
  from runs_same_config [OF r] show ?thesis
    unfolding s' same_config_def by simp
qed

lemma example_like_examples:
  "example_like example_bd" "example_like example_tracked" "example_like example_bad"
  by (simp_all add: example_like_def example_tracked_def example_bad_def example_bd_def)

lemma example_like_configured: "example_like s \<Longrightarrow> example_like (configured s)"
  by (simp add: example_like_def configured_fields)

lemma example_like_V: "example_like s \<Longrightarrow> V s < length (store s)"
  and example_like_max_iters: "example_like s \<Longrightarrow> nonneg_max_iters s"
  by (simp_all add: example_like_def nonneg_max_iters_def)

lemma example_like_seed_of:
  "example_like s \<Longrightarrow>
     seed_of s r = (\<lparr>nrows = 2, ncols = 1, rows = [[real (r + 1)], [real (r + 1)]]\<rparr>,
                    \<lparr>nrows = 1, ncols = 2, rows = [[1, 1]]\<rparr>)"
  by (simp add: example_like_def seed_of_def example_seed_def example_V_def tabulate_def upt_rec)

lemma example_like_conform: "example_like s \<Longrightarrow> seed_conform s r"
  by (simp add: seed_conform_def example_like_seed_of conform_def)
     (simp add: example_like_def example_V_def)

lemma example_like_residual:
  "example_like s \<Longrightarrow>
     residual_sq (store s ! V s) (fst (seed_of s 0)) (snd (seed_of s 0)) = 14"
  by (simp add: example_like_seed_of)
     (simp add: example_like_def residual_sq_def example_V_def entry_def lessThan_Suc
        numeral_2_eq_2)

lemma example_like_initialize:
  assumes "example_like s"
  shows "store (initialize 0 s) ! W (initialize 0 s) = \<lparr>nrows = 2, ncols = 1, rows = [[1], [1]]\<rparr>"
    and "store (initialize 0 s) ! H (initialize 0 s) = \<lparr>nrows = 1, ncols = 2, rows = [[1, 1]]\<rparr>"
    and "store (initialize 0 s) ! V (initialize 0 s) = example_V"
    and "objective (initialize 0 s) = Inr 14"
    and "nonneg_max_iters (initialize 0 s)"
proof -
  note v = example_like_V [OF assms]
  show "store (initialize 0 s) ! W (initialize 0 s) = \<lparr>nrows = 2, ncols = 1, rows = [[1], [1]]\<rparr>"
    and "store (initialize 0 s) ! H (initialize 0 s) = \<lparr>nrows = 1, ncols = 2, rows = [[1, 1]]\<rparr>"
    by (simp_all add: initialize_W_H example_like_seed_of [OF assms])
  show "store (initialize 0 s) ! V (initialize 0 s) = example_V"
    using assms by (simp add: initialize_V [OF v] example_like_def)
  show "objective (initialize 0 s) = Inr 14"
    by (simp add: objective_initialize [OF v example_like_conform [OF assms]]
        example_like_residual [OF assms])
  show "nonneg_max_iters (initialize 0 s)"
    using same_config_nonneg_max_iters [OF same_config_initialize, of 0 s]
      example_like_max_iters [OF assms] by simp
qed

lemma example_like_run:
  assumes "example_like s"
  shows "run update objective 0 s = Some (Inr (run_finish (initialize 0 s) 14, 14, 1))"
  by (simp add: run_bd_cases [OF example_like_V [OF assms] example_like_conform [OF assms]]
      example_like_residual [OF assms] example_like_max_iters [OF assms])

lemma example_like_factorize:
  assumes "example_like s" and "1 \<le> n_run s"
  shows "\<exists>s'. factorize s = Some (Inr s')"
  using factorize_success [OF example_like_V [OF assms(1)] assms(2)]
    example_like_conform [OF assms(1)] by blast

section \<open>The stopping rule\<close>

text \<open>
  C1, as the code has it. For every previous and current objective and every sweep index
  \<open>iter \<ge> 0\<close>, \<open>_is_satisfied\<close> returns true exactly when all three hold:
  \<open>max_iters\<close> is unset or zero, or \<open>iter \<le> max_iters\<close>;
  \<open>iter = 0\<close>, or \<open>min_residuals\<close> is unset or zero, or \<open>cobj - pobj > min_residuals\<close>;
  \<open>iter = 0\<close>, or \<open>cobj < pobj\<close>.
  A zero option counts as unset, and the bound \<open>max_iters\<close> is also tested at \<open>iter = 0\<close>.
\<close>

theorem is_satisfied_iff:
  assumes "0 \<le> iter"
  shows "is_satisfied s pobj cobj iter \<longleftrightarrow>
           (case max_iters s of None \<Rightarrow> True | Some mi \<Rightarrow> mi = 0 \<or> iter \<le> mi) \<and>
           (iter = 0 \<or>
              (case min_residuals s of None \<Rightarrow> True | Some mr \<Rightarrow> mr = 0 \<or> cobj - pobj > mr)) \<and>
           (iter = 0 \<or> cobj < pobj)"
  using assms by (auto simp: is_satisfied_def split: option.splits)

text \<open>
  The rule at two points of a run with \<open>max_iters = 5\<close> and \<open>min_residuals = 0\<close>: it
  continues after a sweep that took the objective from 100 to 80 and stops after one
  that took it from 80 to 85.
\<close>

theorem is_satisfied_iff_witness:
  "(0::int) \<le> 1 \<and>
   is_satisfied (example_bd\<lparr>max_iters := Some 5, min_residuals := Some 0\<rparr>) 100 80 1 \<and>
   \<not> is_satisfied (example_bd\<lparr>max_iters := Some 5, min_residuals := Some 0\<rparr>) 80 85 2"
  using is_satisfied_iff [of 1 "example_bd\<lparr>max_iters := Some 5, min_residuals := Some 0\<rparr>" 100 80]
    is_satisfied_iff [of 2 "example_bd\<lparr>max_iters := Some 5, min_residuals := Some 0\<rparr>" 80 85]
  by simp

text \<open>
  C1 in the words of the specification fails at two inputs. With \<open>max_iters = -1\<close> the
  specification continues at \<open>iter = 0\<close>, where every condition holds for it, and the code
  stops. With \<open>min_residuals = 0\<close>, which is a value and not the absence of one, the
  specification stops after a sweep from 100 to 80, since \<open>80 - 100 > 0\<close> fails, and the
  code continues.
\<close>

theorem is_satisfied_spec_counterexample:
  "is_satisfied_spec (example_bd\<lparr>max_iters := Some (- 1)\<rparr>) 1 1 0 \<and>
   \<not> is_satisfied (example_bd\<lparr>max_iters := Some (- 1)\<rparr>) 1 1 0 \<and>
   \<not> is_satisfied_spec (example_bd\<lparr>min_residuals := Some 0\<rparr>) 100 80 1 \<and>
   is_satisfied (example_bd\<lparr>min_residuals := Some 0\<rparr>) 100 80 1"
  by (simp add: is_satisfied_spec_def is_satisfied_def unset_def example_bd_def)

text \<open>
  C2, what the code does. With \<open>max_iters = n\<close> for a positive \<open>n\<close>, \<open>min_residuals\<close> and
  \<open>test_conv\<close> unset, one run, and any strictly decreasing objective, however small or
  large its steps, \<open>factorize\<close> executes exactly \<open>n + 1\<close> sweeps and returns with
  \<open>n_iter = n + 1\<close>: one sweep more than the bound, because the rule stops only when
  \<open>max_iters < iter\<close>.
\<close>

theorem max_iters_one_sweep_more:
  assumes "max_iters s = Some n" and "0 < n" and "min_residuals s = None"
    and "test_conv s = None" and "\<forall>i. f (Suc i) < f i" and "sweeps_done s = 0"
    and "n_run s = 1"
  shows "\<exists>s'. factorize_with synth_update (synth_objective f) s = Some (Inr s') \<and>
              n_iter s' = n + 1 \<and> sweeps_done s' = nat n + 1 \<and> final_obj s' = f (nat n + 1)"
proof -
  let ?s1 = "initialize 0 (configured s)"
  have o: "synth_objective f ?s1 = Inr (f 0)"
    by (simp add: synth_objective_def synth_initialize_configured assms(6))
  have "sweep_loop synth_update (synth_objective f) ?s1 (f 0) (f 0) (int 0) =
          Some (Inr (?s1\<lparr>sweeps_done := nat n + 1\<rparr>, f (nat n + 1), n + 1))"
    using assms(2)
    by (intro synth_loop_decreasing [OF assms(2) assms(5)])
       (simp_all add: synth_initialize_configured assms(1,3,4,6))
  then have l: "sweep_loop synth_update (synth_objective f) ?s1 (f 0) (f 0) 0 =
          Some (Inr (?s1\<lparr>sweeps_done := nat n + 1\<rparr>, f (nat n + 1), n + 1))"
    by simp
  from factorize_with_single_run [OF assms(7) o l] show ?thesis
    by (simp add: synth_run_finish)
qed

text \<open>
  With \<open>max_iters = 5\<close> and the objective 100, 90, 80, \<dots> \<open>factorize\<close> executes six sweeps
  and returns with \<open>n_iter = 6\<close> and the objective 40.
\<close>

theorem max_iters_5_six_sweeps:
  "\<exists>s'. factorize_with synth_update (synth_objective (\<lambda>i. 100 - 10 * real i))
          (example_synth\<lparr>max_iters := Some 5, n_run := 1\<rparr>) = Some (Inr s') \<and>
        n_iter s' = 6 \<and> sweeps_done s' = 6 \<and> final_obj s' = 40"
proof -
  let ?s = "example_synth\<lparr>max_iters := Some 5, n_run := 1\<rparr>"
  let ?f = "\<lambda>i. 100 - 10 * real i"
  have "max_iters ?s = Some 5" "(0::int) < 5" "min_residuals ?s = None" "test_conv ?s = None"
    "\<forall>i. ?f (Suc i) < ?f i" "sweeps_done ?s = 0" "n_run ?s = 1"
    by (simp_all add: example_synth_def example_bd_def bd.defs synth_bd.defs)
  from max_iters_one_sweep_more [of ?s 5 ?f, OF this] show ?thesis by simp
qed

text \<open>
  C5. With \<open>min_residuals = 0\<close>, \<open>max_iters\<close> and \<open>test_conv\<close> unset, one run and the
  objective trajectory 100, 80, 85, \<open>factorize\<close> executes exactly two sweeps and returns
  with \<open>n_iter = 2\<close> and the objective 85: the rule continues at \<open>iter = 0\<close> and after the
  first sweep (80 < 100) and stops after the second (85 \<ge> 80).
\<close>

theorem trajectory_100_80_85:
  assumes "max_iters s = None" and "min_residuals s = Some 0" and "test_conv s = None"
    and "sweeps_done s = 0" and "n_run s = 1"
  shows "\<exists>s'. factorize_with synth_update (synth_objective (\<lambda>i. [100, 80, 85] ! i)) s =
                Some (Inr s') \<and>
              n_iter s' = 2 \<and> sweeps_done s' = 2 \<and> final_obj s' = 85"
proof -
  let ?s1 = "initialize 0 (configured s)"
  let ?f = "\<lambda>i. [100, 80, 85 :: real] ! i"
  have o: "synth_objective ?f ?s1 = Inr 100"
    by (simp add: synth_objective_def synth_initialize_configured assms(4))
  have l: "sweep_loop synth_update (synth_objective ?f) ?s1 100 100 0 =
             Some (Inr (?s1\<lparr>sweeps_done := 2\<rparr>, 85, 2))"
    by (rule synth_loop_100_80_85) (simp_all add: synth_initialize_configured assms)
  from factorize_with_single_run [OF assms(5) o l] show ?thesis
    by (simp add: synth_run_finish)
qed

text \<open>The same on the example object.\<close>

theorem trajectory_100_80_85_witness:
  "\<exists>s'. factorize_with synth_update (synth_objective (\<lambda>i. [100, 80, 85] ! i))
          (example_synth\<lparr>min_residuals := Some 0, n_run := 1\<rparr>) = Some (Inr s') \<and>
        n_iter s' = 2 \<and> sweeps_done s' = 2 \<and> final_obj s' = 85"
proof -
  let ?s = "example_synth\<lparr>min_residuals := Some 0, n_run := 1\<rparr>"
  have "max_iters ?s = None" "min_residuals ?s = Some 0" "test_conv ?s = None"
    "sweeps_done ?s = 0" "n_run ?s = 1"
    by (simp_all add: example_synth_def example_bd_def bd.defs synth_bd.defs)
  from trajectory_100_80_85 [OF this] show ?thesis .
qed

section \<open>One sweep per run\<close>

text \<open>
  C3. \<open>update\<close> changes nothing: the object after it is the object before it, so a sweep
  leaves the object as it is, and when \<open>factorize\<close> returns, \<open>W\<close> and \<open>H\<close> are exactly the
  pair that the seeder returned in the last run, number \<open>n_run - 1\<close>.
\<close>

theorem update_changes_nothing:
  "update s = s \<and>
   (sweep update objective s pobj cobj iter = Inr (s1, pobj1, cobj1, iter1) \<longrightarrow> s1 = s) \<and>
   (V s < length (store s) \<and> factorize s = Some (Inr s') \<longrightarrow>
      store s' ! W s' = fst (seed_of s (nat (n_run s) - 1)) \<and>
      store s' ! H s' = snd (seed_of s (nat (n_run s) - 1)))"
proof (intro conjI impI)
  show "update s = s" by (simp add: update_def)
next
  assume "sweep update objective s pobj cobj iter = Inr (s1, pobj1, cobj1, iter1)"
  then show "s1 = s"
    by (auto simp: sweep_def update_def Let_def split: if_splits sum.splits)
next
  assume a: "V s < length (store s) \<and> factorize s = Some (Inr s')"
  then obtain s3 c where
    r: "runs update objective (nat (n_run s)) 0 (configured s) None =
          Some (Inr (s3, Some (c, if nonneg_max_iters s then 1 else 0)))"
    and s': "s' = s3\<lparr>n_iter := (if nonneg_max_iters s then 1 else 0), final_obj := c\<rparr>"
    and pos: "0 < nat (n_run s)"
    by (blast elim: factorize_Inr)
  from a have v: "V (configured s) < length (store (configured s))"
    by (simp add: configured_fields)
  from runs_last [OF r pos v]
  show "store s' ! W s' = fst (seed_of s (nat (n_run s) - 1))"
    and "store s' ! H s' = snd (seed_of s (nat (n_run s) - 1))"
    by (simp_all add: s' seed_of_configured)
qed

text \<open>On the example object, with three runs, \<open>W\<close> and \<open>H\<close> are the seeds of run 2.\<close>

theorem update_changes_nothing_witness:
  "update example_bd = example_bd \<and>
   (\<exists>s1 pobj1 cobj1 iter1.
      sweep update objective (initialize 0 example_bd) 14 14 0 = Inr (s1, pobj1, cobj1, iter1) \<and>
      s1 = initialize 0 example_bd) \<and>
   (\<exists>s'. V example_bd < length (store example_bd) \<and> factorize example_bd = Some (Inr s') \<and>
         store s' ! W s' = \<lparr>nrows = 2, ncols = 1, rows = [[3], [3]]\<rparr> \<and>
         store s' ! H s' = \<lparr>nrows = 1, ncols = 2, rows = [[1, 1]]\<rparr>)"
proof -
  note ex = example_like_examples(1)
  note v = example_like_V [OF ex]
  have n: "n_run example_bd = 3" by (simp add: example_bd_def)
  let ?x = "initialize 0 example_bd"
  have sw: "sweep update objective ?x 14 14 0 = Inr (?x, 14, 14, 1)"
    using sweep_bd [OF example_like_initialize(4) [OF ex], of 14 0] by simp
  from update_changes_nothing [of ?x 14 14 0 ?x 14 14 1] sw
  have 1: "\<exists>s1 pobj1 cobj1 iter1.
      sweep update objective ?x 14 14 0 = Inr (s1, pobj1, cobj1, iter1) \<and> s1 = ?x"
    by blast
  from example_like_factorize [OF ex] n obtain s' where s': "factorize example_bd = Some (Inr s')"
    by auto
  from update_changes_nothing [of example_bd _ _ _ _ _ _ _ s'] v s'
  have "update example_bd = example_bd"
    and "store s' ! W s' = \<lparr>nrows = 2, ncols = 1, rows = [[3], [3]]\<rparr>"
    and "store s' ! H s' = \<lparr>nrows = 1, ncols = 2, rows = [[1, 1]]\<rparr>"
    by (simp_all add: n example_like_seed_of [OF ex])
  with 1 v s' show ?thesis by blast
qed






section \<open>Tracking\<close>

text \<open>
  C6. \<open>_set_params\<close> creates the tracker exactly when the option \<open>track\<close> is requested and
  \<open>n_run > 1\<close>. A run that completes with a tracker appends one snapshot to it, whose two
  arrays have the entries of the \<open>W\<close> and \<open>H\<close> at the end of the run and are neither of
  these arrays nor one another. When \<open>factorize\<close> returns with tracking enabled, the tracker holds one
  snapshot per run, in the order of the runs; snapshot \<open>j\<close> holds the \<open>W\<close> and \<open>H\<close> of run
  \<open>j\<close>; the arrays of the snapshots are cells of their own: no cell occurs twice among
  them, and none is the cell of \<open>V\<close> or of the current \<open>W\<close> or \<open>H\<close>. Without tracking there
  is no tracker.
\<close>

theorem tracking_snapshots:
  "(tracker (set_params s) \<noteq> None \<longleftrightarrow> track_requested s \<and> 1 < n_run s) \<and>
   (tracker s = Some t0 \<and> run update objective r s = Some (Inr (s1, cobj, iter)) \<longrightarrow>
      (\<exists>x. tracker s1 = Some (t0 @ [x]) \<and>
           store s1 ! track_W x = store s1 ! W s1 \<and> store s1 ! track_H x = store s1 ! H s1 \<and>
           track_W x \<noteq> W s1 \<and> track_W x \<noteq> H s1 \<and> track_H x \<noteq> W s1 \<and>
           track_H x \<noteq> H s1 \<and> track_W x \<noteq> track_H x)) \<and>
   (V s < length (store s) \<and> factorize s = Some (Inr s') \<longrightarrow>
      (if track_requested s \<and> 1 < n_run s
       then \<exists>t. tracker s' = Some t \<and> length t = nat (n_run s) \<and>
                distinct (snapshot_refs t) \<and>
                list_all (\<lambda>a. a < length (store s')) (snapshot_refs t) \<and>
                V s' \<notin> set (snapshot_refs t) \<and> W s' \<notin> set (snapshot_refs t) \<and>
                H s' \<notin> set (snapshot_refs t) \<and>
                (\<forall>j<nat (n_run s).
                   store s' ! track_W (t ! j) = fst (seed_of s j) \<and>
                   store s' ! track_H (t ! j) = snd (seed_of s j))
       else tracker s' = None))"
proof (intro conjI impI)
  show "tracker (set_params s) \<noteq> None \<longleftrightarrow> track_requested s \<and> 1 < n_run s"
    by (simp add: set_params_def track_requested_def)
next
  assume "tracker s = Some t0 \<and> run update objective r s = Some (Inr (s1, cobj, iter))"
  then show "\<exists>x. tracker s1 = Some (t0 @ [x]) \<and>
           store s1 ! track_W x = store s1 ! W s1 \<and> store s1 ! track_H x = store s1 ! H s1 \<and>
           track_W x \<noteq> W s1 \<and> track_W x \<noteq> H s1 \<and> track_H x \<noteq> W s1 \<and>
           track_H x \<noteq> H s1 \<and> track_W x \<noteq> track_H x"
    using run_snapshot by blast
next
  assume a: "V s < length (store s) \<and> factorize s = Some (Inr s')"
  then obtain s3 c where
    r: "runs update objective (nat (n_run s)) 0 (configured s) None =
          Some (Inr (s3, Some (c, if nonneg_max_iters s then 1 else 0)))"
    and s': "s' = s3\<lparr>n_iter := (if nonneg_max_iters s then 1 else 0), final_obj := c\<rparr>"
    and pos: "0 < nat (n_run s)"
    by (blast elim: factorize_Inr)
  from a have v: "V (configured s) < length (store (configured s))"
    by (simp add: configured_fields)
  show "if track_requested s \<and> 1 < n_run s
        then \<exists>t. tracker s' = Some t \<and> length t = nat (n_run s) \<and>
                distinct (snapshot_refs t) \<and>
                list_all (\<lambda>a. a < length (store s')) (snapshot_refs t) \<and>
                V s' \<notin> set (snapshot_refs t) \<and> W s' \<notin> set (snapshot_refs t) \<and>
                H s' \<notin> set (snapshot_refs t) \<and>
                (\<forall>j<nat (n_run s).
                   store s' ! track_W (t ! j) = fst (seed_of s j) \<and>
                   store s' ! track_H (t ! j) = snd (seed_of s j))
        else tracker s' = None"
  proof (cases "track_requested s \<and> 1 < n_run s")
    case False
    then have "tracker (configured s) = None" by (simp add: tracker_configured)
    from runs_tracker_None [OF r this] False show ?thesis by (simp add: s')
  next
    case True
    then have t0: "tracker (configured s) = Some []" by (simp add: tracker_configured)
    from runs_tracker [OF r t0 v tracker_inv_configured]
    obtain t where t: "tracker s3 = Some t" and len: "length t = nat (n_run s)"
      and inv: "tracker_inv s3"
      and apart: "W s3 \<notin> set (snapshot_refs t)" "H s3 \<notin> set (snapshot_refs t)"
      and cont: "\<forall>j<nat (n_run s).
                   store s3 ! track_W (t ! j) = fst (seed_of (configured s) j) \<and>
                   store s3 ! track_H (t ! j) = snd (seed_of (configured s) j)"
      using pos by auto
    from inv t have "distinct (snapshot_refs t)"
      and "list_all (\<lambda>a. a < length (store s3)) (snapshot_refs t)"
      and "V s3 \<notin> set (snapshot_refs t)"
      by (auto simp: tracker_inv_def list_all_iff)
    with t len apart cont True show ?thesis
      by (simp add: s' seed_of_configured)
  qed
qed

text \<open>With \<open>n_run = 3\<close> and \<open>track\<close> set, the tracker holds exactly three snapshots.\<close>

theorem tracking_snapshots_witness:
  "tracker (set_params example_tracked) \<noteq> None \<and>
   tracker (configured example_tracked) = Some [] \<and>
   (\<exists>s1 x. run update objective 0 (configured example_tracked) = Some (Inr (s1, 14, 1)) \<and>
           tracker s1 = Some [x] \<and> store s1 ! track_W x = store s1 ! W s1 \<and>
           store s1 ! track_H x = store s1 ! H s1 \<and> track_W x \<noteq> W s1 \<and>
           track_H x \<noteq> H s1) \<and>
   (\<exists>s' t. V example_tracked < length (store example_tracked) \<and>
          factorize example_tracked = Some (Inr s') \<and>
          tracker s' = Some t \<and> length t = 3 \<and> distinct (snapshot_refs t) \<and>
          W s' \<notin> set (snapshot_refs t) \<and> H s' \<notin> set (snapshot_refs t) \<and>
          store s' ! track_W (t ! 0) = \<lparr>nrows = 2, ncols = 1, rows = [[1], [1]]\<rparr> \<and>
          store s' ! track_W (t ! 2) = \<lparr>nrows = 2, ncols = 1, rows = [[3], [3]]\<rparr>)"
proof -
  let ?s = example_tracked
  note ex = example_like_examples(2)
  note v = example_like_V [OF ex]
  have n: "n_run ?s = 3" and tr: "track_requested ?s"
    by (simp_all add: example_tracked_def example_bd_def track_requested_def get_def)
  from tracking_snapshots [THEN conjunct1, of ?s] tr n
  have 1: "tracker (set_params ?s) \<noteq> None" by simp
  have t0: "tracker (configured ?s) = Some []"
    by (simp add: tracker_configured tr n)
  note r = example_like_run [OF example_like_configured [OF ex]]
  from tracking_snapshots [THEN conjunct2, THEN conjunct1, of "configured ?s" "[]" 0
      "run_finish (initialize 0 (configured ?s)) 14" 14 1] t0 r
  have 2: "\<exists>s1 x. run update objective 0 (configured ?s) = Some (Inr (s1, 14, 1)) \<and>
           tracker s1 = Some [x] \<and> store s1 ! track_W x = store s1 ! W s1 \<and>
           store s1 ! track_H x = store s1 ! H s1 \<and> track_W x \<noteq> W s1 \<and>
           track_H x \<noteq> H s1"
    by auto
  from example_like_factorize [OF ex] n obtain s' where s': "factorize ?s = Some (Inr s')"
    by auto
  from tracking_snapshots [THEN conjunct2, THEN conjunct2, of ?s s'] v s' tr n
  obtain t where t: "tracker s' = Some t" "length t = 3" "distinct (snapshot_refs t)"
    "W s' \<notin> set (snapshot_refs t)" "H s' \<notin> set (snapshot_refs t)"
    and cont: "\<forall>j<3. store s' ! track_W (t ! j) = fst (seed_of ?s j) \<and>
                      store s' ! track_H (t ! j) = snd (seed_of ?s j)"
    by auto
  from cont have "store s' ! track_W (t ! 0) = \<lparr>nrows = 2, ncols = 1, rows = [[1], [1]]\<rparr>"
    "store s' ! track_W (t ! 2) = \<lparr>nrows = 2, ncols = 1, rows = [[3], [3]]\<rparr>"
    by (simp_all add: example_like_seed_of [OF ex])
  with 1 t0 2 v s' t show ?thesis by blast
qed

section \<open>Errors\<close>

text \<open>
  C7, as the code has it. \<open>bd.py\<close> checks neither shapes nor hyperparameters. An
  exception of the first \<open>objective()\<close> of a run, whatever raises it, ends the run before
  its loop is entered, and in the first run it ends \<open>factorize\<close>, whatever \<open>update\<close> is.
  The options are stored as given: for an object with at least one run whose seeded pairs
  have the shapes of a factorization of \<open>V\<close>, \<open>factorize\<close> returns, and on return \<open>alpha\<close>,
  \<open>beta\<close>, \<open>theta\<close>, \<open>k\<close>, \<open>n_w\<close> and \<open>n_h\<close> are the values of the options, whatever their
  shapes and signs.
\<close>

theorem hyperparameters_stored_unchecked:
  "(obj (initialize r s) = Inl e \<longrightarrow> run upd obj r s = Some (Inl e)) \<and>
   (1 \<le> n_run s \<and> obj (initialize 0 (configured s)) = Inl e \<longrightarrow>
      factorize_with upd obj s = Some (Inl e)) \<and>
   (V s < length (store s) \<and> 1 \<le> n_run s \<and> (\<forall>j<nat (n_run s). seed_conform s j) \<longrightarrow>
      (\<exists>s'. factorize s = Some (Inr s') \<and>
            alpha s' = get (opt_alpha (options s)) (zeros (nrows (store s ! V s)) (rank s)) \<and>
            beta s' = get (opt_beta (options s)) (zeros (rank s) (ncols (store s ! V s))) \<and>
            theta s' = get (opt_theta (options s)) 0 \<and>
            k s' = get (opt_k (options s)) 0 \<and>
            n_w s' = get (opt_n_w (options s)) (zeros (rank s) 1) \<and>
            n_h s' = get (opt_n_h (options s)) (zeros (rank s) 1)))"
proof (intro conjI impI)
  assume "obj (initialize r s) = Inl e"
  then show "run upd obj r s = Some (Inl e)"
    by (simp add: run_def run_start_def)
next
  assume a: "1 \<le> n_run s \<and> obj (initialize 0 (configured s)) = Inl e"
  then have "run upd obj 0 (configured s) = Some (Inl e)"
    by (simp add: run_def run_start_def)
  moreover from a obtain n where "nat (n_run (configured s)) = Suc n"
    by (cases "nat (n_run s)") (simp_all add: configured_fields)
  ultimately have "runs upd obj (nat (n_run (configured s))) 0 (configured s) None = Some (Inl e)"
    by simp
  then show "factorize_with upd obj s = Some (Inl e)"
    by (simp add: factorize_with_def configured_def Let_def set_params_def)
next
  assume a: "V s < length (store s) \<and> 1 \<le> n_run s \<and> (\<forall>j<nat (n_run s). seed_conform s j)"
  then obtain s' where s': "factorize s = Some (Inr s')"
    using factorize_success [of s] by blast
  from factorize_frame [OF s']
  have "alpha s' = alpha (set_params s)" "beta s' = beta (set_params s)"
    "theta s' = theta (set_params s)" "k s' = k (set_params s)"
    "n_w s' = n_w (set_params s)" "n_h s' = n_h (set_params s)"
    by (simp_all add: same_config_def configured_params)
  with s' show "\<exists>s'. factorize s = Some (Inr s') \<and>
            alpha s' = get (opt_alpha (options s)) (zeros (nrows (store s ! V s)) (rank s)) \<and>
            beta s' = get (opt_beta (options s)) (zeros (rank s) (ncols (store s ! V s))) \<and>
            theta s' = get (opt_theta (options s)) 0 \<and>
            k s' = get (opt_k (options s)) 0 \<and>
            n_w s' = get (opt_n_w (options s)) (zeros (rank s) 1) \<and>
            n_h s' = get (opt_n_h (options s)) (zeros (rank s) 1)"
    by (simp add: set_params_def)
qed

text \<open>
  An object with bad hyperparameters, for which \<open>factorize\<close> returns with them stored, and
  an object whose seeder returns a \<open>W\<close> of three rows for a \<open>V\<close> of two: the subtraction
  in the first \<open>objective()\<close> raises and \<open>factorize\<close> ends with that exception.
\<close>

theorem hyperparameters_stored_unchecked_witness:
  "(\<exists>s'. V example_bad < length (store example_bad) \<and> 1 \<le> n_run example_bad \<and>
         seed_conform example_bad 0 \<and> seed_conform example_bad 1 \<and>
         seed_conform example_bad 2 \<and>
         factorize example_bad = Some (Inr s') \<and> alpha s' = bad_alpha \<and> beta s' = bad_beta \<and>
         theta s' = - 1) \<and>
   1 \<le> n_run example_mismatched \<and>
   objective (initialize 0 example_mismatched) = Inl ValueError \<and>
   run update objective 0 example_mismatched = Some (Inl ValueError) \<and>
   objective (initialize 0 (configured example_mismatched)) = Inl ValueError \<and>
   factorize_with update objective example_mismatched = Some (Inl ValueError)"
proof -
  note ex = example_like_examples(3)
  note v = example_like_V [OF ex]
  have n: "1 \<le> n_run example_bad" by (simp add: example_bad_def example_bd_def)
  have c: "\<forall>j<nat (n_run example_bad). seed_conform example_bad j"
    by (simp add: example_like_conform [OF ex])
  have n': "1 \<le> n_run example_mismatched"
    by (simp add: example_mismatched_def example_bd_def)
  have o1: "objective (initialize 0 example_mismatched) = Inl ValueError"
    by (simp add: objective_def initialize_def example_mismatched_def example_bd_def
        mismatched_seed_def dot_def minus_matrix_def zeros_def example_V_def)
  have o2: "objective (initialize 0 (configured example_mismatched)) = Inl ValueError"
    by (simp add: objective_def initialize_def configured_def set_params_def
        example_mismatched_def example_bd_def mismatched_seed_def dot_def minus_matrix_def
        zeros_def example_V_def)
  have o: "opt_alpha (options example_bad) = Some bad_alpha"
    "opt_beta (options example_bad) = Some bad_beta"
    "opt_theta (options example_bad) = Some (- 1)"
    by (simp_all add: example_bad_def bad_options_def example_bd_def)
  from hyperparameters_stored_unchecked [THEN conjunct2, THEN conjunct2, of example_bad] v n c
  obtain s' where "factorize example_bad = Some (Inr s')" "alpha s' = bad_alpha"
    "beta s' = bad_beta" "theta s' = - 1"
    by (auto simp: o get_def)
  moreover from
    hyperparameters_stored_unchecked [THEN conjunct1, of objective 0 example_mismatched ValueError update]
    o1
  have "run update objective 0 example_mismatched = Some (Inl ValueError)" by blast
  moreover from
    hyperparameters_stored_unchecked [THEN conjunct2, THEN conjunct1,
      of example_mismatched objective ValueError update] n' o2
  have "factorize_with update objective example_mismatched = Some (Inl ValueError)" by blast
  ultimately show ?thesis
    using v n n' o1 o2 example_like_conform [OF ex] by blast
qed

text \<open>
  C7 as stated fails: with a negative prior scale \<open>theta = -1\<close> and a prior rate \<open>alpha\<close> of
  the wrong shape with negative entries, \<open>factorize\<close> is not aborted. It returns after one
  sweep with these values stored.
\<close>

theorem unchecked_hyperparameters_counterexample:
  "opt_theta (options example_bad) = Some (- 1) \<and>
   opt_alpha (options example_bad) = Some bad_alpha \<and>
   \<not> nonneg bad_alpha \<and> nrows bad_alpha \<noteq> nrows example_V \<and>
   map_option (map_sum id n_iter) (factorize example_bad) = Some (Inr 1) \<and>
   map_option (map_sum id theta) (factorize example_bad) = Some (Inr (- 1)) \<and>
   map_option (map_sum id alpha) (factorize example_bad) = Some (Inr bad_alpha)"
proof -
  note ex = example_like_examples(3)
  have n: "1 \<le> n_run example_bad" by (simp add: example_bad_def example_bd_def)
  from example_like_factorize [OF ex n] obtain s' where s': "factorize example_bad = Some (Inr s')" ..
  from s' obtain s3 c where
    "s' = s3\<lparr>n_iter := (if nonneg_max_iters example_bad then 1 else 0), final_obj := c\<rparr>"
    by (rule factorize_Inr)
  with example_like_max_iters [OF ex] have i: "n_iter s' = 1" by simp
  from factorize_frame [OF s']
  have "alpha s' = alpha (set_params example_bad)" "theta s' = theta (set_params example_bad)"
    by (simp_all add: same_config_def configured_params)
  then have a: "alpha s' = bad_alpha" "theta s' = - 1"
    by (simp_all add: set_params_def example_bad_def example_bd_def bad_options_def get_def)
  have "\<not> nonneg bad_alpha" "nrows bad_alpha \<noteq> nrows example_V"
    by (simp_all add: bad_alpha_def nonneg_def tabulate_def example_V_def upt_rec)
  with s' i a show ?thesis
    by (simp add: example_bad_def example_bd_def bad_options_def)
qed

section \<open>Invariants and frame\<close>

text \<open>
  C9. A sweep keeps \<open>W\<close> and \<open>H\<close> entrywise non-negative; seeding makes them non-negative
  when the seeder returns non-negative arrays; so when every run is seeded with
  non-negative arrays, \<open>W\<close> and \<open>H\<close> are non-negative when \<open>factorize\<close> returns.
\<close>

theorem nonneg_preserved:
  "(nonneg (store x ! W x) \<and> nonneg (store x ! H x) \<and>
    sweep update objective x pobj cobj iter = Inr (x', pobj', cobj', iter') \<longrightarrow>
      nonneg (store x' ! W x') \<and> nonneg (store x' ! H x')) \<and>
   (nonneg (fst (seed_of s r)) \<and> nonneg (snd (seed_of s r)) \<longrightarrow>
      nonneg (store (initialize r s) ! W (initialize r s)) \<and>
      nonneg (store (initialize r s) ! H (initialize r s))) \<and>
   (V s < length (store s) \<and>
    (\<forall>j<nat (n_run s). nonneg (fst (seed_of s j)) \<and> nonneg (snd (seed_of s j))) \<and>
    factorize s = Some (Inr s') \<longrightarrow>
      nonneg (store s' ! W s') \<and> nonneg (store s' ! H s'))"
proof (intro conjI impI)
  assume a: "nonneg (store x ! W x) \<and> nonneg (store x ! H x) \<and>
    sweep update objective x pobj cobj iter = Inr (x', pobj', cobj', iter')"
  then have "x' = x"
    by (auto simp: sweep_def update_def Let_def split: if_splits sum.splits)
  with a show "nonneg (store x' ! W x')" "nonneg (store x' ! H x')" by simp_all
next
  assume "nonneg (fst (seed_of s r)) \<and> nonneg (snd (seed_of s r))"
  then show "nonneg (store (initialize r s) ! W (initialize r s))"
    "nonneg (store (initialize r s) ! H (initialize r s))"
    by (simp_all add: initialize_W_H)
next
  assume a: "V s < length (store s) \<and>
    (\<forall>j<nat (n_run s). nonneg (fst (seed_of s j)) \<and> nonneg (snd (seed_of s j))) \<and>
    factorize s = Some (Inr s')"
  then obtain s3 c where
    r: "runs update objective (nat (n_run s)) 0 (configured s) None =
          Some (Inr (s3, Some (c, if nonneg_max_iters s then 1 else 0)))"
    and s': "s' = s3\<lparr>n_iter := (if nonneg_max_iters s then 1 else 0), final_obj := c\<rparr>"
    and pos: "0 < nat (n_run s)"
    by (blast elim: factorize_Inr)
  from a have v: "V (configured s) < length (store (configured s))"
    by (simp add: configured_fields)
  from pos have l: "nat (n_run s) - 1 < nat (n_run s)" by simp
  from runs_last [OF r pos v] a l
  show "nonneg (store s' ! W s')" "nonneg (store s' ! H s')"
    by (simp_all add: s' seed_of_configured)
qed

text \<open>The example object, whose seeder returns arrays of positive entries.\<close>

theorem nonneg_preserved_witness:
  "nonneg (store (initialize 0 example_bd) ! W (initialize 0 example_bd)) \<and>
   nonneg (store (initialize 0 example_bd) ! H (initialize 0 example_bd)) \<and>
   sweep update objective (initialize 0 example_bd) 14 14 0 =
     Inr (initialize 0 example_bd, 14, 14, 1) \<and>
   (\<exists>s'. V example_bd < length (store example_bd) \<and>
         (\<forall>j<nat (n_run example_bd).
            nonneg (fst (seed_of example_bd j)) \<and> nonneg (snd (seed_of example_bd j))) \<and>
         factorize example_bd = Some (Inr s') \<and>
         nonneg (store s' ! W s') \<and> nonneg (store s' ! H s'))"
proof -
  note ex = example_like_examples(1)
  note v = example_like_V [OF ex]
  let ?x = "initialize 0 example_bd"
  have n: "1 \<le> n_run example_bd" by (simp add: example_bd_def)
  have nn: "nonneg (fst (seed_of example_bd j)) \<and> nonneg (snd (seed_of example_bd j))" for j
    by (simp add: example_like_seed_of [OF ex] nonneg_def)
  have sw: "sweep update objective ?x 14 14 0 = Inr (?x, 14, 14, 1)"
    using sweep_bd [OF example_like_initialize(4) [OF ex], of 14 0] by simp
  from nonneg_preserved [THEN conjunct2, THEN conjunct1, of example_bd 0] nn [of 0]
  have i: "nonneg (store ?x ! W ?x) \<and> nonneg (store ?x ! H ?x)" by blast
  from nonneg_preserved [THEN conjunct1, of ?x 14 14 0 ?x 14 14 1] i sw
  have "nonneg (store ?x ! W ?x) \<and> nonneg (store ?x ! H ?x)" by blast
  from example_like_factorize [OF ex n] obtain s' where s': "factorize example_bd = Some (Inr s')" ..
  from nonneg_preserved [THEN conjunct2, THEN conjunct2, of example_bd s'] v nn s'
  have "nonneg (store s' ! W s') \<and> nonneg (store s' ! H s')" by blast
  with i sw v nn s' show ?thesis by blast
qed

text \<open>
  C10. When \<open>factorize\<close> returns, \<open>V\<close> refers to the same array with the same entries, no
  array that existed before the call has changed, and \<open>alpha\<close> and \<open>beta\<close> are as
  \<open>_set_params\<close> set them.
\<close>

theorem V_never_mutated:
  assumes "V s < length (store s)" and "factorize s = Some (Inr s')"
  shows "V s' = V s \<and> store s' ! V s' = store s ! V s \<and> prefix (store s) (store s') \<and>
         options s' = options s \<and>
         alpha s' = alpha (set_params s) \<and> beta s' = beta (set_params s)"
proof -
  let ?s' = "s'\<lparr>n_iter := n_iter (configured s)\<rparr>"
  note sc = factorize_frame [OF assms(2)]
  from assms(1) have v: "V (configured s) < length (store (configured s))"
    by (simp add: configured_fields)
  from same_config_V [OF sc v] have "store s' ! V s' = store s ! V s"
    by (simp add: configured_fields)
  moreover from sc have "V s' = V s" "prefix (store s) (store s')" "options s' = options s"
    "alpha s' = alpha (set_params s)" "beta s' = beta (set_params s)"
    by (simp_all add: same_config_def configured_fields configured_params)
  ultimately show ?thesis by simp
qed

text \<open>The example object: \<open>V\<close> is unchanged, \<open>alpha\<close> and \<open>beta\<close> are the default zero matrices.\<close>

theorem V_never_mutated_witness:
  "\<exists>s'. V example_bd < length (store example_bd) \<and> factorize example_bd = Some (Inr s') \<and>
        store s' ! V s' = example_V \<and> alpha s' = zeros 2 1 \<and> beta s' = zeros 1 2"
proof -
  note ex = example_like_examples(1)
  note v = example_like_V [OF ex]
  have n: "1 \<le> n_run example_bd" by (simp add: example_bd_def)
  from example_like_factorize [OF ex n] obtain s' where s': "factorize example_bd = Some (Inr s')" ..
  have "alpha (set_params example_bd) = zeros 2 1" "beta (set_params example_bd) = zeros 1 2"
    "store example_bd ! V example_bd = example_V"
    by (simp_all add: set_params_def example_bd_def no_options_def get_def example_V_def)
  with V_never_mutated [OF v s'] v s' show ?thesis by auto
qed

end
